theory Spec2Isabelle
  imports Main "HOL-Library.Word"
begin

section \<open>Identifiers\<close>

text \<open>
  Modelled from the spec: the declarations of package \<open>ident\<close> are not among the
  sources; the catalogs only use the fields \<open>ID\<close> and \<open>Rev\<close> of a ref and the
  constructor \<open>Message\<close>. The spec gives the widths: a peer ID is a 64-bit clock and a
  16-bit random component, a session ID adds a 32-bit sequence number, a ref adds a
  32-bit revision and a message ID adds a 32-bit sequence number to a ref (the test of
  \<open>MessageID\<close> names its fields \<open>Session\<close> and \<open>Seq\<close>).
\<close>

type_synonym Revision = "32 word"

record PeerID =
  Clock :: "64 word"
  Rand :: "16 word"

record SessionID =
  Peer :: PeerID
  Seq :: "32 word"

record Ref =
  ID :: SessionID
  Rev :: Revision

record MessageID =
  Session :: Ref
  MsgSeq :: "32 word"

text \<open>
  Modelled from the spec: \<open>ref.Message(seq)\<close> of package \<open>ident\<close> is not among the
  sources; a message ID is the pair of the ref and the sequence number.
\<close>

definition Message :: "Ref \<Rightarrow> 32 word \<Rightarrow> MessageID" where
  "Message r s = \<lparr>Session = r, MsgSeq = s\<rparr>"

section \<open>Attributes and their textual form (package attrmeta)\<close>

text \<open>\<open>rinq.Attr\<close>: the fields the test \<open>attr_test.go\<close> shows.\<close>

record Attr =
  Key :: string
  Value :: string
  IsFrozen :: bool

text \<open>
  \<open>attrmeta.Attr\<close>: a \<open>rinq.Attr\<close> (embedded) with the revisions at which it was
  created and last updated.
\<close>

record AttrMeta =
  Attr :: Attr
  CreatedAt :: Revision
  UpdatedAt :: Revision

text \<open>The zero value Go yields when a key is missing from a map.\<close>

definition zeroAttr :: Attr where
  "zeroAttr = \<lparr>Key = [], Value = [], IsFrozen = False\<rparr>"

definition zeroAttrMeta :: AttrMeta where
  "zeroAttrMeta = \<lparr>Attr = zeroAttr, CreatedAt = 0, UpdatedAt = 0\<rparr>"

text \<open>
  \<open>Write\<close> and \<open>WriteDiff\<close> append to a \<open>bytes.Buffer\<close>; the buffer is the string
  written so far and the functions return the extended string.
\<close>

definition Write :: "string \<Rightarrow> AttrMeta \<Rightarrow> string" where
  "Write buffer attr =
     (if Value (Attr attr) = [] then
        (let b1 = (if IsFrozen (Attr attr) then buffer @ ''!'' else buffer @ ''-'')
         in b1 @ Key (Attr attr))
      else
        (let b1 = buffer @ Key (Attr attr);
             b2 = (if IsFrozen (Attr attr) then b1 @ ''@'' else b1 @ ''='')
         in b2 @ Value (Attr attr)))"

definition WriteDiff :: "string \<Rightarrow> AttrMeta \<Rightarrow> string" where
  "WriteDiff buffer attr =
     (if Value (Attr attr) = [] then Write buffer attr
      else
        (let b0 = (if CreatedAt attr = UpdatedAt attr then buffer @ ''+'' else buffer);
             b1 = b0 @ Key (Attr attr);
             b2 = (if IsFrozen (Attr attr) then b1 @ ''@'' else b1 @ ''='')
         in b2 @ Value (Attr attr)))"

section \<open>Map objects\<close>

text \<open>
  A Go map is a reference to a mutable object. The objects live in a store: \<open>cells\<close>
  gives the contents at each address and \<open>top\<close> is the next free address. A map value
  is \<open>None\<close> (the nil map) or \<open>Some a\<close>, the address of its object. Reading a nil map
  finds no key; writing to it panics.
\<close>

record 'a heap =
  cells :: "nat \<Rightarrow> 'a"
  top :: nat

definition alloc :: "'a \<Rightarrow> 'a heap \<Rightarrow> 'a heap \<times> nat" where
  "alloc v h = (h\<lparr>cells := (cells h)(top h := v), top := Suc (top h)\<rparr>, top h)"

definition entries :: "('k \<rightharpoonup> 'v) heap \<Rightarrow> nat option \<Rightarrow> ('k \<rightharpoonup> 'v)" where
  "entries h t = (case t of None \<Rightarrow> Map.empty | Some a \<Rightarrow> cells h a)"

definition store :: "nat \<Rightarrow> 'k \<Rightarrow> 'v \<Rightarrow> ('k \<rightharpoonup> 'v) heap \<Rightarrow> ('k \<rightharpoonup> 'v) heap" where
  "store a k v h = h\<lparr>cells := (cells h)(a := (cells h a)(k \<mapsto> v))\<rparr>"

type_synonym Table = "string \<rightharpoonup> AttrMeta"

text \<open>\<open>Table.Clone\<close>: a fresh map object that receives every entry of \<open>t\<close>.\<close>

definition Clone :: "Table heap \<Rightarrow> nat option \<Rightarrow> Table heap \<times> nat" where
  "Clone h t = alloc (Map.empty ++ entries h t) h"

text \<open>
  A \<open>NamespacedTable\<close> maps a namespace to a \<open>Table\<close>, that is to the address of a
  table object. It is only read and replaced as a whole, so it is kept as a value.
\<close>

type_synonym NamespacedTable = "string \<rightharpoonup> nat"

text \<open>
  Modelled from the spec: \<open>NamespacedTable.CloneAndReplace\<close> is not among the sources;
  by the spec it is a copy of the namespaced table in which the sub-table of the one
  namespace is replaced.
\<close>

definition CloneAndReplace :: "NamespacedTable \<Rightarrow> string \<Rightarrow> nat \<Rightarrow> NamespacedTable" where
  "CloneAndReplace t ns r = t(ns \<mapsto> r)"

section \<open>The local catalog (package localsession)\<close>

text \<open>
  The errors of package \<open>rinq\<close> that the catalogs return, any other error (of the
  client, of \<open>errors.New\<close>) with its message, and the panic of an assignment to an
  entry of a nil map.
\<close>

datatype error =
    NotFoundError SessionID
  | StaleUpdateError Ref
  | StaleFetchError Ref
  | FrozenAttributesError Ref
  | OtherError string
  | NilMapPanic

text \<open>
  The catalog: \<open>isDone\<close> says that the channel \<open>done\<close> has been closed. The mutex and
  the logger carry no state of their own.
\<close>

record catalog =
  ref :: Ref
  attrs :: NamespacedTable
  seq :: "32 word"
  isDone :: bool

text \<open>The revision handle a catalog returns: the ref and the attribute snapshot.\<close>

record revision =
  rev_ref :: Ref
  rev_attrs :: NamespacedTable

definition NewCatalog :: "SessionID \<Rightarrow> catalog" where
  "NewCatalog i = \<lparr>ref = \<lparr>ID = i, Rev = 0\<rparr>, attrs = Map.empty, seq = 0, isDone = False\<rparr>"

definition NextMessageID :: "catalog \<Rightarrow> (MessageID \<times> NamespacedTable) \<times> catalog" where
  "NextMessageID c =
     (let c1 = c\<lparr>seq := seq c + 1\<rparr>
      in ((Message (ref c1) (seq c1), attrs c1), c1))"

definition AttrsIn :: "Table heap \<Rightarrow> catalog \<Rightarrow> string \<Rightarrow> Ref \<times> Table" where
  "AttrsIn h c ns = (ref c, entries h (attrs c ns))"

text \<open>
  The loop of \<open>TryUpdate\<close> over \<open>attrs\<close>. It works on the table object at address
  \<open>nextAttrs\<close> and on the diff buffer (\<open>None\<close> is the nil buffer). It returns the
  error that ended it, if any, with the store, \<open>hasChanged\<close> and the buffer as they
  are at that moment.
\<close>

fun update_loop ::
  "Ref \<Rightarrow> Revision \<Rightarrow> nat \<Rightarrow> Attr list \<Rightarrow> Table heap \<Rightarrow> bool \<Rightarrow> string option
    \<Rightarrow> error option \<times> Table heap \<times> bool \<times> string option"
where
  "update_loop r nextRev nextAttrs [] h hasChanged diff = (None, h, hasChanged, diff)"
| "update_loop r nextRev nextAttrs (attr # rest) h hasChanged diff =
     (let found = cells h nextAttrs (Key attr);
          entry = (case found of None \<Rightarrow> zeroAttrMeta | Some e \<Rightarrow> e);
          exists = (found \<noteq> None)
      in if Value attr = Value (Attr entry) \<and> IsFrozen attr = IsFrozen (Attr entry) then
           update_loop r nextRev nextAttrs rest h hasChanged diff
         else if IsFrozen (Attr entry) then
           (Some (FrozenAttributesError r), h, hasChanged, diff)
         else
           (let entry1 = entry\<lparr>Attr := attr, UpdatedAt := nextRev\<rparr>;
                entry2 = (if \<not> exists then entry1\<lparr>CreatedAt := nextRev\<rparr> else entry1);
                h1 = store nextAttrs (Key attr) entry2 h;
                diff1 = (case diff of
                           None \<Rightarrow> None
                         | Some b \<Rightarrow>
                             Some (WriteDiff (if length b \<noteq> 0 then b @ '', '' else b) entry2))
            in update_loop r nextRev nextAttrs rest h1 True diff1))"

text \<open>
  \<open>TryUpdate\<close> takes the store and the catalog and returns the result with the store,
  the catalog and the diff buffer after the call.
\<close>

definition TryUpdate ::
  "Ref \<Rightarrow> string \<Rightarrow> Attr list \<Rightarrow> string option \<Rightarrow> Table heap \<times> catalog
    \<Rightarrow> (error + revision) \<times> Table heap \<times> catalog \<times> string option"
where
  "TryUpdate r ns as diff hc =
     (let h = fst hc; c = snd hc
      in if isDone c then (Inl (NotFoundError (ID (ref c))), h, c, diff)
         else if r \<noteq> ref c then (Inl (StaleUpdateError r), h, c, diff)
         else
           (let nextRev = Rev r + 1;
                (h1, nextAttrs) = Clone h (attrs c ns);
                (err, h2, hasChanged, diff1) = update_loop r nextRev nextAttrs as h1 False diff
            in case err of
                 Some e \<Rightarrow> (Inl e, h2, c, diff1)
               | None \<Rightarrow>
                   (let c1 = c\<lparr>ref := (ref c)\<lparr>Rev := nextRev\<rparr>, seq := 0\<rparr>;
                        c2 = (if hasChanged
                              then c1\<lparr>attrs := CloneAndReplace (attrs c1) ns nextAttrs\<rparr>
                              else c1)
                    in (Inr \<lparr>rev_ref = ref c2, rev_attrs = attrs c2\<rparr>, h2, c2, diff1))))"

definition TryDestroy :: "Ref \<Rightarrow> catalog \<Rightarrow> error option \<times> catalog" where
  "TryDestroy r c =
     (if r \<noteq> ref c then (Some (StaleUpdateError r), c)
      else (None, (if isDone c then c else c\<lparr>isDone := True\<rparr>)))"

definition Close :: "catalog \<Rightarrow> catalog" where
  "Close c = (if isDone c then c else c\<lparr>isDone := True\<rparr>)"

section \<open>The remote catalog (package remotesession)\<close>

text \<open>
  The declarations of \<open>cachedAttr\<close>, \<open>attrNamespaceCache\<close> and \<open>attrTableCache\<close>
  are not among the sources; \<open>catalog.go\<close> builds \<open>cachedAttr{attr, fetchedRev}\<close> and
  reads the fields \<open>Attr\<close> (here \<open>Meta\<close>) and \<open>FetchedAt\<close>. A namespace cache is a map
  object from keys to cached attributes; the table cache maps a namespace to the
  address of its namespace cache.
\<close>

record cachedAttr =
  Meta :: AttrMeta
  FetchedAt :: Revision

definition zeroCachedAttr :: cachedAttr where
  "zeroCachedAttr = \<lparr>Meta = zeroAttrMeta, FetchedAt = 0\<rparr>"

type_synonym attrNamespaceCache = "string \<rightharpoonup> cachedAttr"

type_synonym attrTableCache = "string \<rightharpoonup> nat"

text \<open>
  The client that talks to the owning peer is not among the sources. It is a parameter:
  each remote call maps the request to the triple (revision, attributes, error) that
  \<open>catalog.go\<close> receives. The calls a catalog operation makes are recorded in a list.
\<close>

record client =
  client_Fetch :: "SessionID \<Rightarrow> string \<Rightarrow> string list \<Rightarrow> Revision \<times> AttrMeta list \<times> error option"
  client_Update :: "Ref \<Rightarrow> string \<Rightarrow> Attr list \<Rightarrow> Revision \<times> AttrMeta list \<times> error option"

datatype rpc =
    FetchCall SessionID string "string list"
  | UpdateCall Ref string "Attr list"

text \<open>The remote catalog; \<open>sid\<close> is the field \<open>id\<close>.\<close>

record rcatalog =
  sid :: SessionID
  highestRev :: Revision
  cache :: attrTableCache
  isClosed :: bool

definition newCatalog :: "SessionID \<Rightarrow> rcatalog" where
  "newCatalog i = \<lparr>sid = i, highestRev = 0, cache = Map.empty, isClosed = False\<rparr>"

text \<open>
  Modelled from the spec: \<open>rinq.IsNotFound\<close> is not among the sources; it holds of the
  errors that are a \<open>NotFoundError\<close>.
\<close>

definition IsNotFound :: "error \<Rightarrow> bool" where
  "IsNotFound e = (case e of NotFoundError _ \<Rightarrow> True | _ \<Rightarrow> False)"

definition updateState :: "Revision \<Rightarrow> error option \<Rightarrow> rcatalog \<Rightarrow> rcatalog" where
  "updateState rv err c =
     (case err of
        Some e \<Rightarrow> (if IsNotFound e then c\<lparr>isClosed := True\<rparr> else c)
      | None \<Rightarrow> (if rv > highestRev c then c\<lparr>highestRev := rv\<rparr> else c))"

text \<open>
  The loop of \<open>fetchLocal\<close> over the keys, on the contents of the namespace cache. The
  result is the named results \<open>solved\<close>, \<open>unsolved\<close> and \<open>err\<close> as the loop leaves
  them.
\<close>

fun fetchLocal_loop ::
  "SessionID \<Rightarrow> Revision \<Rightarrow> attrNamespaceCache \<Rightarrow> string list \<Rightarrow> Attr list \<Rightarrow> string list
    \<Rightarrow> Attr list \<times> string list \<times> error option"
where
  "fetchLocal_loop i rv nc [] solved unsolved = (solved, unsolved, None)"
| "fetchLocal_loop i rv nc (key # rest) solved unsolved =
     (case nc key of
        Some entry \<Rightarrow>
          if CreatedAt (Meta entry) > rv then
            fetchLocal_loop i rv nc rest solved unsolved
          else if UpdatedAt (Meta entry) > rv then
            (solved, unsolved, Some (StaleFetchError \<lparr>ID = i, Rev = rv\<rparr>))
          else if IsFrozen (Attr (Meta entry)) \<or> rv \<le> FetchedAt entry then
            fetchLocal_loop i rv nc rest (solved @ [Attr (Meta entry)]) unsolved
          else
            fetchLocal_loop i rv nc rest solved (unsolved @ [key])
      | None \<Rightarrow> fetchLocal_loop i rv nc rest solved (unsolved @ [key]))"

definition fetchLocal ::
  "attrNamespaceCache heap \<Rightarrow> rcatalog \<Rightarrow> Revision \<Rightarrow> string \<Rightarrow> string list
    \<Rightarrow> Attr list \<times> string list \<times> error option"
where
  "fetchLocal h c rv ns keys =
     (let (solved, unsolved, err) =
            fetchLocal_loop (sid c) rv (entries h (cache c ns)) keys [] []
      in case err of
           Some e \<Rightarrow> (solved, unsolved, Some e)
         | None \<Rightarrow>
             if length unsolved > 0 \<and> isClosed c
             then (solved, unsolved, Some (NotFoundError (sid c)))
             else (solved, unsolved, None))"

text \<open>
  The merge loop of \<open>Fetch\<close> over the fetched attributes. \<open>nc\<close> is the variable
  \<open>cache\<close>: the nil map or the address of the namespace cache. \<open>cache_fetched\<close> is
  the first statement of the loop body, which updates the cache entry if the fetched
  revision is newer and allocates the namespace cache when it is still nil.
\<close>

definition cache_fetched ::
  "Revision \<Rightarrow> AttrMeta \<Rightarrow> attrNamespaceCache heap \<Rightarrow> nat option
    \<Rightarrow> attrNamespaceCache heap \<times> nat option"
where
  "cache_fetched fetchedRev attr h nc =
     (let entry = (case entries h nc (Key (Attr attr)) of
                     None \<Rightarrow> zeroCachedAttr
                   | Some e \<Rightarrow> e)
      in if fetchedRev > FetchedAt entry then
           (let (h0, a) = (case nc of
                             None \<Rightarrow> alloc Map.empty h
                           | Some a \<Rightarrow> (h, a))
            in (store a (Key (Attr attr)) \<lparr>Meta = attr, FetchedAt = fetchedRev\<rparr> h0, Some a))
         else (h, nc))"

fun fetch_merge ::
  "Revision \<Rightarrow> Revision \<Rightarrow> AttrMeta list \<Rightarrow> attrNamespaceCache heap \<Rightarrow> nat option \<Rightarrow> bool
    \<Rightarrow> Attr list \<Rightarrow> attrNamespaceCache heap \<times> nat option \<times> bool \<times> Attr list"
where
  "fetch_merge rv fetchedRev [] h nc isStaleFetch solvedAttrs =
     (h, nc, isStaleFetch, solvedAttrs)"
| "fetch_merge rv fetchedRev (attr # rest) h nc isStaleFetch solvedAttrs =
     (let (h1, nc1) = cache_fetched fetchedRev attr h nc
      in if isStaleFetch then
           fetch_merge rv fetchedRev rest h1 nc1 isStaleFetch solvedAttrs
         else if CreatedAt attr > rv then
           fetch_merge rv fetchedRev rest h1 nc1 isStaleFetch solvedAttrs
         else if UpdatedAt attr > rv then
           fetch_merge rv fetchedRev rest h1 nc1 True solvedAttrs
         else
           fetch_merge rv fetchedRev rest h1 nc1 isStaleFetch (solvedAttrs @ [Attr attr]))"

definition Fetch ::
  "client \<Rightarrow> Revision \<Rightarrow> string \<Rightarrow> string list \<Rightarrow> attrNamespaceCache heap \<times> rcatalog
    \<Rightarrow> (error + Attr list) \<times> attrNamespaceCache heap \<times> rcatalog \<times> rpc list"
where
  "Fetch cl rv ns keys hc =
     (let h = fst hc; c = snd hc;
          (solvedAttrs, unsolvedKeys, err) = fetchLocal h c rv ns keys
      in case err of
           Some e \<Rightarrow> (Inl e, h, c, [])
         | None \<Rightarrow>
             if length unsolvedKeys = 0 then (Inr solvedAttrs, h, c, [])
             else
               (let (fetchedRev, fetchedAttrs, err1) = client_Fetch cl (sid c) ns unsolvedKeys;
                    calls = [FetchCall (sid c) ns unsolvedKeys];
                    c1 = updateState fetchedRev err1 c
                in case err1 of
                     Some e \<Rightarrow> (Inl e, h, c1, calls)
                   | None \<Rightarrow>
                       if length fetchedAttrs = 0 then (Inr solvedAttrs, h, c1, calls)
                       else
                         (let nc = cache c1 ns;
                              isExistingNamespace = (nc \<noteq> None);
                              (h1, nc1, isStaleFetch, solved1) =
                                fetch_merge rv fetchedRev fetchedAttrs h nc False solvedAttrs;
                              c2 = (case nc1 of
                                      Some a \<Rightarrow>
                                        if \<not> isExistingNamespace
                                        then c1\<lparr>cache := (cache c1)(ns \<mapsto> a)\<rparr>
                                        else c1
                                    | None \<Rightarrow> c1)
                          in if isStaleFetch
                             then (Inl (StaleFetchError \<lparr>ID = sid c, Rev = rv\<rparr>), h1, c2, calls)
                             else (Inr solved1, h1, c2, calls))))"

text \<open>
  The first loop of the remote \<open>TryUpdate\<close>: it drops the attributes the cache
  already settles and collects the others in \<open>updateAttrs\<close>.
\<close>

fun update_filter ::
  "Ref \<Rightarrow> Revision \<Rightarrow> attrNamespaceCache \<Rightarrow> Attr list \<Rightarrow> Attr list \<Rightarrow> error + Attr list"
where
  "update_filter r rv nc [] updateAttrs = Inr updateAttrs"
| "update_filter r rv nc (attr # rest) updateAttrs =
     (case nc (Key attr) of
        Some entry \<Rightarrow>
          if IsFrozen (Attr (Meta entry)) then
            (if attr = Attr (Meta entry)
             then update_filter r rv nc rest updateAttrs
             else Inl (FrozenAttributesError r))
          else if FetchedAt entry = rv \<and> attr = Attr (Meta entry) then
            update_filter r rv nc rest updateAttrs
          else
            update_filter r rv nc rest (updateAttrs @ [attr])
      | None \<Rightarrow> update_filter r rv nc rest (updateAttrs @ [attr]))"

text \<open>
  The second loop of the remote \<open>TryUpdate\<close>: it writes the returned attributes
  through the variable \<open>cache\<close> captured before the remote call. An assignment to an
  entry of the nil map panics.
\<close>

fun update_merge ::
  "Revision \<Rightarrow> AttrMeta list \<Rightarrow> attrNamespaceCache heap \<Rightarrow> nat option
    \<Rightarrow> error option \<times> attrNamespaceCache heap"
where
  "update_merge updatedRev [] h nc = (None, h)"
| "update_merge updatedRev (attr # rest) h nc =
     (let entry = (case entries h nc (Key (Attr attr)) of
                     None \<Rightarrow> zeroCachedAttr
                   | Some e \<Rightarrow> e)
      in if updatedRev > FetchedAt entry then
           (case nc of
              None \<Rightarrow> (Some NilMapPanic, h)
            | Some a \<Rightarrow>
                update_merge updatedRev rest
                  (store a (Key (Attr attr)) \<lparr>Meta = attr, FetchedAt = updatedRev\<rparr> h) nc)
         else update_merge updatedRev rest h nc)"

definition remote_TryUpdate ::
  "client \<Rightarrow> Revision \<Rightarrow> string \<Rightarrow> Attr list \<Rightarrow> attrNamespaceCache heap \<times> rcatalog
    \<Rightarrow> (error + Ref) \<times> attrNamespaceCache heap \<times> rcatalog \<times> rpc list"
where
  "remote_TryUpdate cl rv ns as hc =
     (let h = fst hc; c = snd hc
      in if isClosed c then (Inl (NotFoundError (sid c)), h, c, [])
         else
           (let r = \<lparr>ID = sid c, Rev = rv\<rparr>
            in if highestRev c > rv then (Inl (StaleUpdateError r), h, c, [])
               else
                 (let nc = cache c ns
                  in case update_filter r rv (entries h nc) as [] of
                       Inl e \<Rightarrow> (Inl e, h, c, [])
                     | Inr updateAttrs \<Rightarrow>
                         (let (updatedRev, returnedAttrs, err) =
                                client_Update cl r ns updateAttrs;
                              calls = [UpdateCall r ns updateAttrs];
                              c1 = updateState updatedRev err c
                          in case err of
                               Some e \<Rightarrow> (Inl e, h, c1, calls)
                             | None \<Rightarrow>
                                 (case update_merge updatedRev returnedAttrs h nc of
                                    (Some e, h1) \<Rightarrow> (Inl e, h1, c1, calls)
                                  | (None, h1) \<Rightarrow>
                                      (Inr \<lparr>ID = sid c1, Rev = highestRev c1\<rparr>,
                                       h1, c1, calls))))))"

section \<open>The command server\<close>

text \<open>
  A delivery of the broker, with the fields the server reads. A header value is a
  string or something else.
\<close>

datatype header_value = StringValue string | OtherValue

record Delivery =
  MessageId :: string
  Exchange :: string
  RoutingKey :: string
  Headers :: "string \<rightharpoonup> header_value"
  Type :: string
  Body :: string
  ReplyTo :: string

text \<open>What the server tells the broker about a delivery: \<open>Ack(multiple)\<close> or \<open>Reject(requeue)\<close>.\<close>

datatype disposition = Ack bool | Reject bool

record 'r Command =
  Source :: 'r
  Namespace :: string
  Cmd :: string
  Payload :: string
  IsMulticast :: bool

text \<open>
  A command handler runs on the command and the responder; the server only asks the
  responder afterwards whether it is closed (\<open>res.IsClosed()\<close>), so a handler is the
  function from the command to that answer. \<open>None\<close> is the nil handler. The field
  \<open>Cmd\<close> of a command is the field \<open>Command\<close> of the source.
\<close>

type_synonym 'r CommandHandler = "('r Command \<Rightarrow> bool) option"

text \<open>
  The names of the three exchanges and of the namespace header, \<open>ParseMessageID\<close> and
  the revision store are not among the sources: they are parameters of the server.
\<close>

record 'r server_env =
  balancedExchange :: string
  multicastExchange :: string
  unicastExchange :: string
  namespaceHeader :: string
  ParseMessageID :: "string \<Rightarrow> error + MessageID"
  GetRevision :: "Ref \<Rightarrow> error + 'r"

text \<open>
  \<open>handle\<close> returns its error and the dispositions it has sent to the broker.
\<close>

definition handle ::
  "'r server_env \<Rightarrow> (string \<rightharpoonup> 'r CommandHandler) \<Rightarrow> MessageID \<Rightarrow> string \<Rightarrow> Delivery
    \<Rightarrow> error option \<times> disposition list"
where
  "handle env handlers msgID namespace msg =
     (let handler = (case handlers namespace of None \<Rightarrow> None | Some f \<Rightarrow> f)
      in case handler of
           None \<Rightarrow> (None, [Reject True])
         | Some f \<Rightarrow>
             (case GetRevision env (Session msgID) of
                Inl e \<Rightarrow> (Some e, [])
              | Inr source \<Rightarrow>
                  (let cmd = \<lparr>Source = source, Namespace = RoutingKey msg, Cmd = Type msg,
                              Payload = Body msg,
                              IsMulticast = (Exchange msg = multicastExchange env)\<rparr>;
                       closed = f cmd
                   in if closed then (None, [Ack True])
                      else if Exchange msg = balancedExchange env then (None, [Reject True])
                      else (None, [Reject False]))))"

definition dispatch ::
  "'r server_env \<Rightarrow> (string \<rightharpoonup> 'r CommandHandler) \<Rightarrow> Delivery \<Rightarrow> disposition list"
where
  "dispatch env handlers msg =
     (case ParseMessageID env (MessageId msg) of
        Inl e \<Rightarrow> [Reject False]
      | Inr msgID \<Rightarrow>
          (let (err, sent) =
                 (if Exchange msg = balancedExchange env \<or> Exchange msg = multicastExchange env
                  then handle env handlers msgID (RoutingKey msg) msg
                  else if Exchange msg = unicastExchange env then
                    (case Headers msg (namespaceHeader env) of
                       Some (StringValue namespace) \<Rightarrow> handle env handlers msgID namespace msg
                     | _ \<Rightarrow>
                         (Some (OtherError ''malformed request, namespace is not a string''), []))
                  else (Some (OtherError ''delivery via exchange is not expected''), []))
           in case err of
                Some e \<Rightarrow> sent @ [Reject False]
              | None \<Rightarrow> sent))"

section \<open>Notions used in the statements\<close>

text \<open>
  Every table a catalog refers to is an object of the store. The code keeps this: an
  address enters \<open>attrs\<close> only when \<open>Clone\<close> has just allocated it.
\<close>

definition allocated :: "Table heap \<Rightarrow> catalog \<Rightarrow> bool" where
  "allocated h c = (\<forall>n a. attrs c n = Some a \<longrightarrow> a < top h)"

text \<open>
  The attribute \<open>x\<close> does not differ from what the table \<open>t\<close> stores under its key
  (an absent key reads as the zero value): the update loop skips it.
\<close>

definition unchanged_by :: "Table \<Rightarrow> Attr \<Rightarrow> bool" where
  "unchanged_by t x =
     (let entry = (case t (Key x) of None \<Rightarrow> zeroAttrMeta | Some e \<Rightarrow> e)
      in Value x = Value (Attr entry) \<and> IsFrozen x = IsFrozen (Attr entry))"

text \<open>The mutators of a local catalog as values, to speak about sequences of calls.\<close>

datatype call =
    CallTryUpdate Ref string "Attr list" "string option"
  | CallNextMessageID
  | CallTryDestroy Ref
  | CallClose

fun step :: "call \<Rightarrow> Table heap \<times> catalog \<Rightarrow> Table heap \<times> catalog" where
  "step (CallTryUpdate r ns as d) hc = (case TryUpdate r ns as d hc of (res, h', c', d') \<Rightarrow> (h', c'))"
| "step CallNextMessageID hc = (fst hc, snd (NextMessageID (snd hc)))"
| "step (CallTryDestroy r) hc = (fst hc, snd (TryDestroy r (snd hc)))"
| "step CallClose hc = (fst hc, Close (snd hc))"

definition calls :: "call list \<Rightarrow> Table heap \<times> catalog \<Rightarrow> Table heap \<times> catalog" where
  "calls cs hc = fold step cs hc"


text \<open>Concrete values for the examples.\<close>

definition session0 :: SessionID where
  "session0 = \<lparr>Peer = \<lparr>Clock = 1, Rand = 1\<rparr>, Seq = 1\<rparr>"

definition heap0 :: "('k \<rightharpoonup> 'v) heap" where
  "heap0 = \<lparr>cells = (\<lambda>a. Map.empty), top = 0\<rparr>"

text \<open>\<open>rinq.Set\<close> and \<open>rinq.Freeze\<close>, as \<open>attr_test.go\<close> fixes them.\<close>

definition Set_attr :: "string \<Rightarrow> string \<Rightarrow> Attr" where
  "Set_attr k v = \<lparr>Key = k, Value = v, IsFrozen = False\<rparr>"

definition Freeze :: "string \<Rightarrow> string \<Rightarrow> Attr" where
  "Freeze k v = \<lparr>Key = k, Value = v, IsFrozen = True\<rparr>"

text \<open>
  A catalog at revision 1 whose namespace \<open>ns\<close> holds the frozen attribute \<open>k@v1\<close>, and its
  store.
\<close>

definition frozen_heap :: "Table heap" where
  "frozen_heap =
     \<lparr>cells = (\<lambda>a. Map.empty)(0 := [''k'' \<mapsto> \<lparr>Attr = Freeze ''k'' ''v1'', CreatedAt = 1, UpdatedAt = 1\<rparr>]),
      top = 1\<rparr>"

definition frozen_catalog :: catalog where
  "frozen_catalog =
     \<lparr>ref = \<lparr>ID = session0, Rev = 1\<rparr>, attrs = [''ns'' \<mapsto> 0], seq = 0, isDone = False\<rparr>"


text \<open>
  The namespace cache holds an entry for the key that was created after the revision
  \<open>rv\<close>: at \<open>rv\<close> the attribute did not exist yet.
\<close>

definition created_after :: "attrNamespaceCache \<Rightarrow> Revision \<Rightarrow> string \<Rightarrow> bool" where
  "created_after nc rv key =
     (case nc key of None \<Rightarrow> False | Some entry \<Rightarrow> CreatedAt (Meta entry) > rv)"

text \<open>
  A remote catalog that has seen revision 5 and caches three attributes of the
  namespace \<open>ns\<close>: \<open>k\<close>, updated at revision 10; \<open>j\<close>, created at revision 20; and the
  frozen \<open>f\<close>.
\<close>

definition cache_heap :: "attrNamespaceCache heap" where
  "cache_heap =
     \<lparr>cells = (\<lambda>a. Map.empty)
        (0 := [''k'' \<mapsto> \<lparr>Meta = \<lparr>Attr = Set_attr ''k'' ''v'', CreatedAt = 2, UpdatedAt = 10\<rparr>,
                          FetchedAt = 10\<rparr>,
               ''j'' \<mapsto> \<lparr>Meta = \<lparr>Attr = Set_attr ''j'' ''u'', CreatedAt = 20, UpdatedAt = 20\<rparr>,
                          FetchedAt = 20\<rparr>,
               ''f'' \<mapsto> \<lparr>Meta = \<lparr>Attr = Freeze ''f'' ''x'', CreatedAt = 1, UpdatedAt = 1\<rparr>,
                          FetchedAt = 1\<rparr>]),
      top = 1\<rparr>"

definition cache_catalog :: rcatalog where
  "cache_catalog = \<lparr>sid = session0, highestRev = 5, cache = [''ns'' \<mapsto> 0], isClosed = False\<rparr>"

text \<open>
  An owning peer for the examples: a fetch answers at revision 5 with every key set at
  revisions 3 and 4; an update answers with the next revision, at which every attribute
  sent was created.
\<close>

definition owner :: client where
  "owner =
     \<lparr>client_Fetch = (\<lambda>i ns keys.
        (5, map (\<lambda>k. \<lparr>Attr = Set_attr k ''w'', CreatedAt = 3, UpdatedAt = 4\<rparr>) keys, None)),
      client_Update = (\<lambda>r ns as.
        (Rev r + 1, map (\<lambda>a. \<lparr>Attr = a, CreatedAt = Rev r + 1, UpdatedAt = Rev r + 1\<rparr>) as, None))\<rparr>"

text \<open>A server environment and a delivery for the examples.\<close>

definition env0 :: "unit server_env" where
  "env0 =
     \<lparr>balancedExchange = ''cmd.bal'', multicastExchange = ''cmd.mc'', unicastExchange = ''cmd.uc'',
      namespaceHeader = ''n'',
      ParseMessageID = (\<lambda>s. if s = [] then Inl (OtherError ''malformed'')
                              else Inr \<lparr>Session = \<lparr>ID = session0, Rev = 0\<rparr>, MsgSeq = 1\<rparr>),
      GetRevision = (\<lambda>r. Inr ())\<rparr>"

definition request :: "string \<Rightarrow> string \<Rightarrow> (string \<rightharpoonup> header_value) \<Rightarrow> Delivery" where
  "request exchange key headers =
     \<lparr>MessageId = ''1-1.1@0#1'', Exchange = exchange, RoutingKey = key, Headers = headers,
      Type = ''add'', Body = ''1,2'', ReplyTo = ''reply''\<rparr>"

section \<open>The update loop of the local catalog\<close>

lemma update_loop_frame:
  "update_loop r nr a as h ch d = (e, h', ch', d') \<Longrightarrow>
     top h' = top h \<and> (\<forall>b. b \<noteq> a \<longrightarrow> cells h' b = cells h b)"
proof (induction as arbitrary: h ch d)
  case Nil
  then show ?case by simp
next
  case (Cons x xs)
  show ?case
  proof (cases "Value x = Value (Attr (case cells h a (Key x) of None \<Rightarrow> zeroAttrMeta | Some e \<Rightarrow> e))
       \<and> IsFrozen x = IsFrozen (Attr (case cells h a (Key x) of None \<Rightarrow> zeroAttrMeta | Some e \<Rightarrow> e))")
    case True
    with Cons.prems have "update_loop r nr a xs h ch d = (e, h', ch', d')"
      by (simp add: Let_def)
    then show ?thesis by (rule Cons.IH)
  next
    case False
    note nochange = this
    show ?thesis
    proof (cases "IsFrozen (Attr (case cells h a (Key x) of None \<Rightarrow> zeroAttrMeta | Some e \<Rightarrow> e))")
      case True
      with nochange Cons.prems show ?thesis by (auto simp: Let_def split: if_splits)
    next
      case False
      with nochange Cons.prems obtain m dd where
        "update_loop r nr a xs (store a (Key x) m h) True dd = (e, h', ch', d')"
        by (auto simp: Let_def split: if_splits)
      from Cons.IH [OF this] show ?thesis by (simp add: store_def)
    qed
  qed
qed

lemma update_loop_error:
  "update_loop r nr a as h ch d = (Some e, h', ch', d') \<Longrightarrow> e = FrozenAttributesError r"
  by (induction as arbitrary: h ch d) (auto simp: Let_def split: if_splits)

lemma update_loop_frozen_kept:
  "cells h a k = Some m \<Longrightarrow> IsFrozen (Attr m) \<Longrightarrow>
   update_loop r nr a as h ch d = (e, h', ch', d') \<Longrightarrow> cells h' a k = Some m"
proof (induction as arbitrary: h ch d)
  case Nil
  then show ?case by simp
next
  case (Cons x xs)
  show ?case
  proof (cases "Key x = k")
    case True
    with Cons.prems show ?thesis
      by (auto simp: Let_def split: if_splits dest: Cons.IH [rotated 2])
  next
    case False
    with Cons.prems show ?thesis
      by (auto simp: Let_def store_def split: if_splits dest!: Cons.IH [rotated 2])
  qed
qed

lemma update_loop_frozen_fails:
  "cells h a k = Some m \<Longrightarrow> IsFrozen (Attr m) \<Longrightarrow> x \<in> set as \<Longrightarrow> Key x = k \<Longrightarrow>
   Value x \<noteq> Value (Attr m) \<or> \<not> IsFrozen x \<Longrightarrow>
   fst (update_loop r nr a as h ch d) = Some (FrozenAttributesError r)"
proof (induction as arbitrary: h ch d)
  case Nil
  then show ?case by simp
next
  case (Cons y ys)
  show ?case
  proof (cases "Key y = k")
    case True
    with Cons show ?thesis
      by (auto simp: Let_def)
  next
    case False
    with Cons.prems have "x \<in> set ys" by auto
    with False Cons.prems Cons.IH show ?thesis
      by (auto simp: Let_def store_def)
  qed
qed

lemma update_loop_changed_mono:
  "update_loop r nr a as h True d = (e, h', ch', d') \<Longrightarrow> ch'"
  by (induction as arbitrary: h d) (auto simp: Let_def split: if_splits)

lemma update_loop_unchanged:
  "update_loop r nr a as h ch d = (e, h', False, d') \<Longrightarrow> h' = h \<and> d' = d"
  by (induction as arbitrary: h ch d) (auto simp: Let_def split: if_splits dest: update_loop_changed_mono)

lemma Clone_eq:
  "Clone h t = (h\<lparr>cells := (cells h)(top h := entries h t), top := Suc (top h)\<rparr>, top h)"
  by (simp add: Clone_def alloc_def)

lemma TryUpdate_cases [case_names closed stale frozen ok]:
  obtains
    "isDone c" "TryUpdate r ns as d (h, c) = (Inl (NotFoundError (ID (ref c))), h, c, d)"
  | "\<not> isDone c" "r \<noteq> ref c" "TryUpdate r ns as d (h, c) = (Inl (StaleUpdateError r), h, c, d)"
  | h2 ch d1 where "\<not> isDone c" "r = ref c"
      "update_loop r (Rev r + 1) (top h) as (fst (Clone h (attrs c ns))) False d
         = (Some (FrozenAttributesError r), h2, ch, d1)"
      "TryUpdate r ns as d (h, c) = (Inl (FrozenAttributesError r), h2, c, d1)"
  | h2 ch d1 where "\<not> isDone c" "r = ref c"
      "update_loop r (Rev r + 1) (top h) as (fst (Clone h (attrs c ns))) False d
         = (None, h2, ch, d1)"
      "TryUpdate r ns as d (h, c) =
         (Inr \<lparr>rev_ref = \<lparr>ID = ID r, Rev = Rev r + 1\<rparr>,
               rev_attrs = (if ch then (attrs c)(ns \<mapsto> top h) else attrs c)\<rparr>,
          h2,
          c\<lparr>ref := \<lparr>ID = ID r, Rev = Rev r + 1\<rparr>, seq := 0,
            attrs := (if ch then (attrs c)(ns \<mapsto> top h) else attrs c)\<rparr>,
          d1)"
proof (cases "isDone c")
  case True
  then show ?thesis using that(1) by (simp add: TryUpdate_def)
next
  case open_c: False
  show ?thesis
  proof (cases "r = ref c")
    case False
    with open_c show ?thesis using that(2) by (simp add: TryUpdate_def)
  next
    case True
    obtain err h2 ch d1 where
      loop: "update_loop r (Rev r + 1) (top h) as (fst (Clone h (attrs c ns))) False d
              = (err, h2, ch, d1)"
      by (metis prod_cases4)
    show ?thesis
    proof (cases err)
      case None
      with loop open_c True have
        "TryUpdate r ns as d (h, c) =
         (Inr \<lparr>rev_ref = \<lparr>ID = ID r, Rev = Rev r + 1\<rparr>,
               rev_attrs = (if ch then (attrs c)(ns \<mapsto> top h) else attrs c)\<rparr>,
          h2,
          c\<lparr>ref := \<lparr>ID = ID r, Rev = Rev r + 1\<rparr>, seq := 0,
            attrs := (if ch then (attrs c)(ns \<mapsto> top h) else attrs c)\<rparr>,
          d1)"
        by (simp add: TryUpdate_def Clone_eq CloneAndReplace_def)
      with loop open_c True None show ?thesis using that(4) by simp
    next
      case (Some e)
      with loop have e: "e = FrozenAttributesError r" by (simp add: update_loop_error)
      with Some loop open_c True have
        "TryUpdate r ns as d (h, c) = (Inl (FrozenAttributesError r), h2, c, d1)"
        by (simp add: TryUpdate_def Clone_eq)
      with loop open_c True Some e show ?thesis using that(3) by simp
    qed
  qed
qed

lemma unat_succ: "unat (x::32 word) + 1 < 2 ^ 32 \<Longrightarrow> unat (x + 1) = unat x + 1"
  using unat_add_lem [of x 1] by simp

lemma word_lt_succ: "unat (x::32 word) + 1 < 2 ^ 32 \<Longrightarrow> x < x + 1"
  by (simp add: word_less_nat_alt unat_succ)

lemma update_loop_noop:
  "\<forall>x\<in>set as. unchanged_by (cells h a) x \<Longrightarrow> update_loop r nr a as h ch d = (None, h, ch, d)"
  by (induction as) (simp_all add: unchanged_by_def Let_def)

section \<open>The revision after an update\<close>

text \<open>
  Claim C1, as amended. A \<open>TryUpdate\<close> that returns without error returns the
  revision \<open>ref.Rev + 1\<close>, computed in 32 bits, of the same session, leaves the
  catalog at that revision and resets \<open>seq\<close> to 0. The new revision is strictly
  greater than the one passed in unless \<open>ref.Rev\<close> is the largest 32-bit number.
  An update of an open catalog at its current ref in which no attribute differs from the
  stored table succeeds, and changes nothing but the revision and \<open>seq\<close>.
\<close>

theorem TryUpdate_next_revision:
  "(TryUpdate r ns as d (h, c) = (Inr rv, h', c', d') \<longrightarrow>
      rev_ref rv = \<lparr>ID = ID r, Rev = Rev r + 1\<rparr> \<and> ref c' = rev_ref rv \<and> seq c' = 0 \<and>
      (unat (Rev r) + 1 < 2 ^ 32 \<longrightarrow> Rev r < Rev (rev_ref rv)))
   \<and> (\<not> isDone c \<and> (\<forall>x\<in>set as. unchanged_by (entries h (attrs c ns)) x) \<longrightarrow>
        fst (TryUpdate (ref c) ns as d (h, c)) =
          Inr \<lparr>rev_ref = \<lparr>ID = ID (ref c), Rev = Rev (ref c) + 1\<rparr>, rev_attrs = attrs c\<rparr> \<and>
        fst (snd (snd (TryUpdate (ref c) ns as d (h, c)))) =
          c\<lparr>ref := \<lparr>ID = ID (ref c), Rev = Rev (ref c) + 1\<rparr>, seq := 0\<rparr>)"
proof (intro conjI impI)
  assume ok: "TryUpdate r ns as d (h, c) = (Inr rv, h', c', d')"
  then have rv: "rev_ref rv = \<lparr>ID = ID r, Rev = Rev r + 1\<rparr>"
    and c': "ref c' = \<lparr>ID = ID r, Rev = Rev r + 1\<rparr>" "seq c' = 0"
    by (cases rule: TryUpdate_cases [of c r ns as d h]; auto)+
  show "rev_ref rv = \<lparr>ID = ID r, Rev = Rev r + 1\<rparr>" by (rule rv)
  show "ref c' = rev_ref rv" by (simp add: rv c')
  show "seq c' = 0" by (rule c')
  assume "unat (Rev r) + 1 < 2 ^ 32"
  then show "Rev r < Rev (rev_ref rv)" by (simp add: rv word_lt_succ)
next
  assume a: "\<not> isDone c \<and> (\<forall>x\<in>set as. unchanged_by (entries h (attrs c ns)) x)"
  let ?h1 = "fst (Clone h (attrs c ns))"
  have "cells ?h1 (top h) = entries h (attrs c ns)" by (simp add: Clone_eq)
  with a have loop:
    "update_loop (ref c) (Rev (ref c) + 1) (top h) as ?h1 False d = (None, ?h1, False, d)"
    by (simp add: update_loop_noop)
  have res: "TryUpdate (ref c) ns as d (h, c) =
    (Inr \<lparr>rev_ref = \<lparr>ID = ID (ref c), Rev = Rev (ref c) + 1\<rparr>, rev_attrs = attrs c\<rparr>, ?h1,
     c\<lparr>ref := \<lparr>ID = ID (ref c), Rev = Rev (ref c) + 1\<rparr>, seq := 0\<rparr>, d)"
    using a loop by (cases rule: TryUpdate_cases [of c "ref c" ns as d h]) auto
  show "fst (TryUpdate (ref c) ns as d (h, c)) =
          Inr \<lparr>rev_ref = \<lparr>ID = ID (ref c), Rev = Rev (ref c) + 1\<rparr>, rev_attrs = attrs c\<rparr>"
    by (simp add: res)
  show "fst (snd (snd (TryUpdate (ref c) ns as d (h, c)))) =
          c\<lparr>ref := \<lparr>ID = ID (ref c), Rev = Rev (ref c) + 1\<rparr>, seq := 0\<rparr>"
    by (simp add: res)
qed

theorem TryUpdate_next_revision_witness:
  "fst (TryUpdate \<lparr>ID = session0, Rev = 0\<rparr> ''ns'' [Set_attr ''k'' ''v''] None (heap0, NewCatalog session0))
     = Inr \<lparr>rev_ref = \<lparr>ID = session0, Rev = 1\<rparr>, rev_attrs = [''ns'' \<mapsto> 0]\<rparr>
   \<and> seq (fst (snd (snd (TryUpdate \<lparr>ID = session0, Rev = 0\<rparr> ''ns'' [Set_attr ''k'' ''v''] None
         (heap0, NewCatalog session0))))) = 0
   \<and> fst (TryUpdate \<lparr>ID = session0, Rev = 1\<rparr> ''ns'' [Freeze ''k'' ''v1''] None
         (frozen_heap, frozen_catalog))
     = Inr \<lparr>rev_ref = \<lparr>ID = session0, Rev = 2\<rparr>, rev_attrs = [''ns'' \<mapsto> 0]\<rparr>
   \<and> fst (snd (snd (TryUpdate \<lparr>ID = session0, Rev = 1\<rparr> ''ns'' [Freeze ''k'' ''v1''] None
         (frozen_heap, frozen_catalog))))
     = frozen_catalog\<lparr>ref := \<lparr>ID = session0, Rev = 2\<rparr>\<rparr>"
proof -
  obtain rv h' c' d' where
    e: "TryUpdate \<lparr>ID = session0, Rev = 0\<rparr> ''ns'' [Set_attr ''k'' ''v''] None (heap0, NewCatalog session0)
          = (Inr rv, h', c', d')"
    and rv: "rv = \<lparr>rev_ref = \<lparr>ID = session0, Rev = 1\<rparr>, rev_attrs = [''ns'' \<mapsto> 0]\<rparr>"
    by (simp add: TryUpdate_def NewCatalog_def heap0_def Clone_eq entries_def Set_attr_def
        zeroAttrMeta_def zeroAttr_def store_def CloneAndReplace_def Let_def)
  have noop: "\<not> isDone frozen_catalog \<and>
      (\<forall>x\<in>set [Freeze ''k'' ''v1''].
         unchanged_by (entries frozen_heap (attrs frozen_catalog ''ns'')) x)"
    by (simp add: frozen_catalog_def frozen_heap_def entries_def unchanged_by_def Freeze_def)
  from TryUpdate_next_revision [of "\<lparr>ID = session0, Rev = 0\<rparr>" "''ns''" "[Set_attr ''k'' ''v'']"
      None heap0 "NewCatalog session0" rv h' c' d'] e
  have "seq c' = 0" by simp
  moreover
  from TryUpdate_next_revision [of "\<lparr>ID = session0, Rev = 1\<rparr>" "''ns''" "[Freeze ''k'' ''v1'']"
      None frozen_heap frozen_catalog rv h' c' d'] noop
  have "fst (TryUpdate (ref frozen_catalog) ''ns'' [Freeze ''k'' ''v1''] None
          (frozen_heap, frozen_catalog))
     = Inr \<lparr>rev_ref = \<lparr>ID = ID (ref frozen_catalog), Rev = Rev (ref frozen_catalog) + 1\<rparr>,
            rev_attrs = attrs frozen_catalog\<rparr>
     \<and> fst (snd (snd (TryUpdate (ref frozen_catalog) ''ns'' [Freeze ''k'' ''v1''] None
          (frozen_heap, frozen_catalog))))
     = frozen_catalog\<lparr>ref := \<lparr>ID = ID (ref frozen_catalog), Rev = Rev (ref frozen_catalog) + 1\<rparr>,
          seq := 0\<rparr>"
    by blast
  ultimately show ?thesis using e rv by (simp add: frozen_catalog_def)
qed

text \<open>
  At the largest revision the update succeeds and returns revision 0, which is not
  greater than the revision passed in.
\<close>

theorem TryUpdate_revision_wraps:
  "fst (TryUpdate \<lparr>ID = session0, Rev = 4294967295\<rparr> ''ns'' [] None
         (heap0, (NewCatalog session0)\<lparr>ref := \<lparr>ID = session0, Rev = 4294967295\<rparr>\<rparr>))
     = Inr \<lparr>rev_ref = \<lparr>ID = session0, Rev = 0\<rparr>, rev_attrs = Map.empty\<rparr>
   \<and> \<not> Rev \<lparr>ID = session0, Rev = 4294967295\<rparr>
         < Rev (rev_ref \<lparr>rev_ref = \<lparr>ID = session0, Rev = 0\<rparr>, rev_attrs = Map.empty\<rparr>)"
  by (simp add: TryUpdate_def NewCatalog_def heap0_def Clone_eq entries_def CloneAndReplace_def)

section \<open>Failures of the local TryUpdate\<close>

lemma frozen_state_reached:
  "TryUpdate \<lparr>ID = session0, Rev = 0\<rparr> ''ns'' [Freeze ''k'' ''v1''] None (heap0, NewCatalog session0)
     = (Inr \<lparr>rev_ref = \<lparr>ID = session0, Rev = 1\<rparr>, rev_attrs = [''ns'' \<mapsto> 0]\<rparr>,
        frozen_heap, frozen_catalog, None)"
  by (simp add: TryUpdate_def NewCatalog_def heap0_def Clone_eq entries_def Freeze_def
        zeroAttrMeta_def zeroAttr_def store_def CloneAndReplace_def Let_def frozen_heap_def
        frozen_catalog_def)

lemma TryUpdate_failure_state:
  assumes "TryUpdate r ns as d (h, c) = (Inl e, h', c', d')"
  shows "c' = c" and "top h \<le> top h'" and "\<forall>a<top h. cells h' a = cells h a"
    and "e = NotFoundError (ID (ref c)) \<or> e = StaleUpdateError r \<or> e = FrozenAttributesError r"
proof -
  have "c' = c \<and> top h \<le> top h' \<and> (\<forall>a<top h. cells h' a = cells h a) \<and>
    (e = NotFoundError (ID (ref c)) \<or> e = StaleUpdateError r \<or> e = FrozenAttributesError r)"
  proof (cases rule: TryUpdate_cases [of c r ns as d h])
    case closed
    with assms show ?thesis by auto
  next
    case stale
    with assms show ?thesis by auto
  next
    case (frozen h2 ch d1)
    from update_loop_frame [OF frozen(3)]
    have "top h2 = Suc (top h)" and "\<forall>b. b \<noteq> top h \<longrightarrow> cells h2 b = cells h b"
      by (simp_all add: Clone_eq)
    with frozen(4) assms show ?thesis by auto
  next
    case (ok h2 ch d1)
    with assms show ?thesis by simp
  qed
  then show "c' = c" and "top h \<le> top h'" and "\<forall>a<top h. cells h' a = cells h a"
    and "e = NotFoundError (ID (ref c)) \<or> e = StaleUpdateError r \<or> e = FrozenAttributesError r"
    by simp_all
qed

text \<open>
  Claim C5. \<open>TryUpdate\<close> on a closed catalog fails with \<open>NotFound\<close>, whatever the ref
  is; on an open catalog whose current ref is not \<open>ref\<close> it fails with
  \<open>StaleUpdate\<close>; and no failure, of these two kinds or of any other, moves the
  catalog to a new revision.
\<close>

theorem TryUpdate_errors:
  "(isDone c \<longrightarrow> TryUpdate r ns as d (h, c) = (Inl (NotFoundError (ID (ref c))), h, c, d))
   \<and> (\<not> isDone c \<and> r \<noteq> ref c \<longrightarrow>
        TryUpdate r ns as d (h, c) = (Inl (StaleUpdateError r), h, c, d))
   \<and> (TryUpdate r ns as d (h, c) = (Inl e, h', c', d') \<longrightarrow> ref c' = ref c)"
proof (intro conjI impI)
  assume "isDone c"
  then show "TryUpdate r ns as d (h, c) = (Inl (NotFoundError (ID (ref c))), h, c, d)"
    by (simp add: TryUpdate_def)
next
  assume "\<not> isDone c \<and> r \<noteq> ref c"
  then show "TryUpdate r ns as d (h, c) = (Inl (StaleUpdateError r), h, c, d)"
    by (simp add: TryUpdate_def)
next
  assume "TryUpdate r ns as d (h, c) = (Inl e, h', c', d')"
  then have "c' = c" by (rule TryUpdate_failure_state(1))
  then show "ref c' = ref c" by simp
qed

theorem TryUpdate_errors_witness:
  "TryUpdate \<lparr>ID = session0, Rev = 0\<rparr> ''ns'' [Set_attr ''k'' ''v2''] None
       (frozen_heap, frozen_catalog\<lparr>isDone := True\<rparr>)
     = (Inl (NotFoundError session0), frozen_heap, frozen_catalog\<lparr>isDone := True\<rparr>, None)
   \<and> TryUpdate \<lparr>ID = session0, Rev = 0\<rparr> ''ns'' [Set_attr ''k'' ''v2''] None (frozen_heap, frozen_catalog)
     = (Inl (StaleUpdateError \<lparr>ID = session0, Rev = 0\<rparr>), frozen_heap, frozen_catalog, None)
   \<and> ref (fst (snd (snd (TryUpdate \<lparr>ID = session0, Rev = 1\<rparr> ''ns'' [Set_attr ''k'' ''v2''] None
       (frozen_heap, frozen_catalog))))) = \<lparr>ID = session0, Rev = 1\<rparr>"
proof -
  obtain h' c' d' where
    e: "TryUpdate \<lparr>ID = session0, Rev = 1\<rparr> ''ns'' [Set_attr ''k'' ''v2''] None (frozen_heap, frozen_catalog)
          = (Inl (FrozenAttributesError \<lparr>ID = session0, Rev = 1\<rparr>), h', c', d')"
    by (simp add: TryUpdate_def frozen_heap_def frozen_catalog_def Clone_eq entries_def
        Set_attr_def Freeze_def Let_def)
  have a: "isDone (frozen_catalog\<lparr>isDone := True\<rparr>)" by simp
  have b: "\<not> isDone frozen_catalog \<and> \<lparr>ID = session0, Rev = 0\<rparr> \<noteq> ref frozen_catalog"
    by (simp add: frozen_catalog_def)
  from TryUpdate_errors [of "frozen_catalog\<lparr>isDone := True\<rparr>" "\<lparr>ID = session0, Rev = 0\<rparr>" "''ns''"
      "[Set_attr ''k'' ''v2'']" None frozen_heap] a
  have 1: "TryUpdate \<lparr>ID = session0, Rev = 0\<rparr> ''ns'' [Set_attr ''k'' ''v2''] None
       (frozen_heap, frozen_catalog\<lparr>isDone := True\<rparr>)
     = (Inl (NotFoundError session0), frozen_heap, frozen_catalog\<lparr>isDone := True\<rparr>, None)"
    by (simp add: frozen_catalog_def)
  from TryUpdate_errors [of frozen_catalog "\<lparr>ID = session0, Rev = 0\<rparr>" "''ns''"
      "[Set_attr ''k'' ''v2'']" None frozen_heap] b
  have 2: "TryUpdate \<lparr>ID = session0, Rev = 0\<rparr> ''ns'' [Set_attr ''k'' ''v2''] None (frozen_heap, frozen_catalog)
     = (Inl (StaleUpdateError \<lparr>ID = session0, Rev = 0\<rparr>), frozen_heap, frozen_catalog, None)"
    by blast
  from TryUpdate_errors [of frozen_catalog "\<lparr>ID = session0, Rev = 1\<rparr>" "''ns''"
      "[Set_attr ''k'' ''v2'']" None frozen_heap _ h' c' d'] e
  have 3: "ref c' = ref frozen_catalog" by blast
  from 1 2 3 e show ?thesis by (simp add: frozen_catalog_def)
qed

text \<open>
  Claim C9. When \<open>TryUpdate\<close> returns an error, the catalog has the ref, the
  \<open>seq\<close>, the namespaced table and the closed flag it had before, no map object
  that existed before the call has changed, and so every namespace reads as before.
  The error is one of \<open>NotFound\<close>, \<open>StaleUpdate\<close> and \<open>FrozenAttributes\<close>. In
  the example the first attribute is written to the clone (and to the diff buffer)
  before the second one hits the frozen attribute.
\<close>

theorem TryUpdate_failure_atomic:
  assumes "TryUpdate r ns as d (h, c) = (Inl e, h', c', d')"
  shows "ref c' = ref c \<and> seq c' = seq c \<and> attrs c' = attrs c \<and> isDone c' = isDone c
    \<and> (\<forall>a<top h. cells h' a = cells h a)
    \<and> (allocated h c \<longrightarrow> (\<forall>n. AttrsIn h' c' n = AttrsIn h c n))
    \<and> (e = NotFoundError (ID (ref c)) \<or> e = StaleUpdateError r \<or> e = FrozenAttributesError r)"
proof -
  note st = TryUpdate_failure_state [OF assms]
  have "AttrsIn h' c' n = AttrsIn h c n" if al: "allocated h c" for n
  proof (cases "attrs c n")
    case None
    with st(1) show ?thesis by (simp add: AttrsIn_def entries_def)
  next
    case (Some a)
    with al have "a < top h" by (simp add: allocated_def)
    with st(3) have "cells h' a = cells h a" by simp
    with Some st(1) show ?thesis by (simp add: AttrsIn_def entries_def)
  qed
  with st show ?thesis by simp
qed

theorem TryUpdate_failure_atomic_witness:
  "fst (TryUpdate \<lparr>ID = session0, Rev = 1\<rparr> ''ns'' [Set_attr ''a'' ''1'', Set_attr ''k'' ''v2'']
          (Some []) (frozen_heap, frozen_catalog))
     = Inl (FrozenAttributesError \<lparr>ID = session0, Rev = 1\<rparr>)
   \<and> fst (snd (snd (TryUpdate \<lparr>ID = session0, Rev = 1\<rparr> ''ns''
          [Set_attr ''a'' ''1'', Set_attr ''k'' ''v2''] (Some []) (frozen_heap, frozen_catalog))))
     = frozen_catalog
   \<and> (\<forall>n. AttrsIn (fst (snd (TryUpdate \<lparr>ID = session0, Rev = 1\<rparr> ''ns''
          [Set_attr ''a'' ''1'', Set_attr ''k'' ''v2''] (Some []) (frozen_heap, frozen_catalog))))
          frozen_catalog n = AttrsIn frozen_heap frozen_catalog n)
   \<and> snd (snd (snd (TryUpdate \<lparr>ID = session0, Rev = 1\<rparr> ''ns''
          [Set_attr ''a'' ''1'', Set_attr ''k'' ''v2''] (Some []) (frozen_heap, frozen_catalog))))
     = Some ''+a=1''"
proof -
  obtain h' c' where
    e: "TryUpdate \<lparr>ID = session0, Rev = 1\<rparr> ''ns'' [Set_attr ''a'' ''1'', Set_attr ''k'' ''v2'']
          (Some []) (frozen_heap, frozen_catalog)
          = (Inl (FrozenAttributesError \<lparr>ID = session0, Rev = 1\<rparr>), h', c', Some ''+a=1'')"
    by (simp add: TryUpdate_def frozen_heap_def frozen_catalog_def Clone_eq entries_def
        Set_attr_def Freeze_def Let_def zeroAttrMeta_def zeroAttr_def store_def WriteDiff_def)
  have al: "allocated frozen_heap frozen_catalog"
    by (simp add: allocated_def frozen_heap_def frozen_catalog_def)
  from TryUpdate_failure_atomic [OF e] al
  have "attrs c' = attrs frozen_catalog" and "ref c' = ref frozen_catalog"
    and "seq c' = seq frozen_catalog" and "isDone c' = isDone frozen_catalog"
    and "\<forall>n. AttrsIn h' c' n = AttrsIn frozen_heap frozen_catalog n"
    by simp_all
  then have "c' = frozen_catalog" and "\<forall>n. AttrsIn h' c' n = AttrsIn frozen_heap frozen_catalog n"
    by simp_all
  with e show ?thesis by simp
qed

section \<open>Message IDs\<close>







section \<open>The store invariant\<close>

text \<open>
  A new catalog refers to no table, and every call of a mutator keeps all tables of the
  catalog in the store.
\<close>

lemma allocated_NewCatalog: "allocated h (NewCatalog i)"
  by (simp add: allocated_def NewCatalog_def)

lemma TryUpdate_allocated:
  assumes al: "allocated h c" and up: "TryUpdate r ns as d (h, c) = (res, h', c', d')"
  shows "allocated h' c'"
proof (cases rule: TryUpdate_cases [of c r ns as d h])
  case closed
  with up al show ?thesis by auto
next
  case stale
  with up al show ?thesis by auto
next
  case (frozen h2 ch d1)
  from update_loop_frame [OF frozen(3)] have "top h2 = Suc (top h)" by (simp add: Clone_eq)
  with frozen(4) up al show ?thesis by (auto simp: allocated_def less_Suc_eq)
next
  case (ok h2 ch d1)
  from update_loop_frame [OF ok(3)] have "top h2 = Suc (top h)" by (simp add: Clone_eq)
  with ok(4) up al show ?thesis by (auto simp: allocated_def less_Suc_eq)
qed

lemma calls_allocated:
  "allocated h c \<Longrightarrow> calls cs (h, c) = (h', c') \<Longrightarrow> allocated h' c'"
proof (induction cs arbitrary: h c)
  case Nil
  then show ?case by (simp add: calls_def)
next
  case (Cons x xs)
  obtain h1 c1 where s: "step x (h, c) = (h1, c1)" by (metis prod.collapse)
  have "allocated h1 c1"
  proof (cases x)
    case (CallTryUpdate r ns as d)
    with s obtain res d' where "TryUpdate r ns as d (h, c) = (res, h1, c1, d')"
      by (auto split: prod.splits)
    from TryUpdate_allocated [OF Cons.prems(1) this] show ?thesis .
  next
    case CallNextMessageID
    with s Cons.prems(1) show ?thesis by (auto simp: NextMessageID_def Let_def allocated_def)
  next
    case (CallTryDestroy r)
    with s Cons.prems(1) show ?thesis by (auto simp: TryDestroy_def allocated_def split: if_splits)
  next
    case CallClose
    with s Cons.prems(1) show ?thesis by (auto simp: Close_def allocated_def split: if_splits)
  qed
  moreover from Cons.prems(2) s have "calls xs (h1, c1) = (h', c')" by (simp add: calls_def)
  ultimately show ?case by (rule Cons.IH)
qed

section \<open>Frozen attributes\<close>

lemma TryUpdate_keeps_frozen:
  assumes al: "allocated h c" and st: "entries h (attrs c ns) k = Some m"
    and fr: "IsFrozen (Attr m)" and up: "TryUpdate r ns' as d (h, c) = (res, h', c', d')"
  shows "allocated h' c' \<and> entries h' (attrs c' ns) k = Some m"
proof -
  from st obtain a where a: "attrs c ns = Some a" "cells h a k = Some m"
    by (auto simp: entries_def split: option.splits)
  with al have lt: "a < top h" by (simp add: allocated_def)
  have loop: "allocated h2 c \<and> cells h2 a k = Some m \<and> (ns' = ns \<longrightarrow> cells h2 (top h) k = Some m)
      \<and> top h2 = Suc (top h)"
    if "update_loop r nr (top h) as (fst (Clone h (attrs c ns'))) False d = (err, h2, ch, d1)"
    for nr err h2 ch d1
  proof -
    from update_loop_frame [OF that]
    have t: "top h2 = Suc (top h)" and c: "\<forall>b. b \<noteq> top h \<longrightarrow> cells h2 b = cells h b"
      by (simp_all add: Clone_eq)
    from al t have "allocated h2 c" by (auto simp: allocated_def less_Suc_eq)
    moreover from c lt a have "cells h2 a k = Some m" by simp
    moreover have "cells h2 (top h) k = Some m" if "ns' = ns"
    proof -
      from that a have "cells (fst (Clone h (attrs c ns'))) (top h) k = Some m"
        by (simp add: Clone_eq entries_def)
      from update_loop_frozen_kept [OF this fr \<open>update_loop r nr (top h) as _ False d = _\<close>]
      show ?thesis .
    qed
    ultimately show ?thesis using t by simp
  qed
  show ?thesis
  proof (cases rule: TryUpdate_cases [of c r ns' as d h])
    case closed
    with up al st show ?thesis by auto
  next
    case stale
    with up al st show ?thesis by auto
  next
    case (frozen h2 ch d1)
    from loop [OF frozen(3)] frozen(4) up a show ?thesis by (auto simp: entries_def)
  next
    case (ok h2 ch d1)
    from loop [OF ok(3)] have "cells h2 a k = Some m" and "top h2 = Suc (top h)"
      and "ns' = ns \<longrightarrow> cells h2 (top h) k = Some m"
      by blast+
    with ok(4) up a al show ?thesis
      by (auto simp: entries_def allocated_def less_Suc_eq)
  qed
qed

lemma step_keeps_frozen:
  assumes "allocated h c" and "entries h (attrs c ns) k = Some m" and "IsFrozen (Attr m)"
    and "step x (h, c) = (h', c')"
  shows "allocated h' c' \<and> entries h' (attrs c' ns) k = Some m"
proof (cases x)
  case (CallTryUpdate r ns' as d)
  with assms(4) obtain res d' where "TryUpdate r ns' as d (h, c) = (res, h', c', d')"
    by (auto split: prod.splits)
  from TryUpdate_keeps_frozen [OF assms(1-3) this] show ?thesis .
next
  case CallNextMessageID
  with assms show ?thesis by (auto simp: NextMessageID_def Let_def allocated_def)
next
  case (CallTryDestroy r)
  with assms show ?thesis by (auto simp: TryDestroy_def allocated_def split: if_splits)
next
  case CallClose
  with assms show ?thesis by (auto simp: Close_def allocated_def split: if_splits)
qed

lemma calls_keeps_frozen:
  "allocated h c \<Longrightarrow> entries h (attrs c ns) k = Some m \<Longrightarrow> IsFrozen (Attr m) \<Longrightarrow>
   calls cs (h, c) = (h', c') \<Longrightarrow> allocated h' c' \<and> entries h' (attrs c' ns) k = Some m"
proof (induction cs arbitrary: h c)
  case Nil
  then show ?case by (simp add: calls_def)
next
  case (Cons x xs)
  obtain h1 c1 where s: "step x (h, c) = (h1, c1)" by (metis prod.collapse)
  from step_keeps_frozen [OF Cons.prems(1-3) s]
  have "allocated h1 c1" and "entries h1 (attrs c1 ns) k = Some m" by simp_all
  moreover from Cons.prems(4) s have "calls xs (h1, c1) = (h', c')" by (simp add: calls_def)
  ultimately show ?case using Cons.IH Cons.prems(3) by blast
qed

text \<open>
  Claim C2. Once a namespace of a catalog stores a frozen attribute under a key, every
  sequence of calls of the catalog's mutators leaves exactly that entry under the key:
  no \<open>TryUpdate\<close> changes its value or clears \<open>IsFrozen\<close>. A \<open>TryUpdate\<close> in that
  namespace with an attribute for the key that has another value or is not frozen
  fails; on an open catalog at its current ref (the two checks that come first) the
  error is \<open>FrozenAttributes\<close>.
\<close>

theorem frozen_immutable:
  assumes "allocated h c" and "snd (AttrsIn h c ns) k = Some m" and "IsFrozen (Attr m)"
  shows "(calls cs (h, c) = (h', c') \<longrightarrow> snd (AttrsIn h' c' ns) k = Some m)
    \<and> (x \<in> set as \<and> Key x = k \<and> (Value x \<noteq> Value (Attr m) \<or> \<not> IsFrozen x) \<longrightarrow>
         (\<exists>e. fst (TryUpdate r ns as d (h, c)) = Inl e) \<and>
         (\<not> isDone c \<and> r = ref c \<longrightarrow>
            fst (TryUpdate r ns as d (h, c)) = Inl (FrozenAttributesError r)))"
proof -
  from assms(2) have st: "entries h (attrs c ns) k = Some m" by (simp add: AttrsIn_def)
  have p1: "calls cs (h, c) = (h', c') \<longrightarrow> snd (AttrsIn h' c' ns) k = Some m"
    using calls_keeps_frozen [OF assms(1) st assms(3)] by (simp add: AttrsIn_def)
  have p2: "(\<exists>e. fst (TryUpdate r ns as d (h, c)) = Inl e) \<and>
         (\<not> isDone c \<and> r = ref c \<longrightarrow>
            fst (TryUpdate r ns as d (h, c)) = Inl (FrozenAttributesError r))"
    if x: "x \<in> set as \<and> Key x = k \<and> (Value x \<noteq> Value (Attr m) \<or> \<not> IsFrozen x)"
  proof (cases rule: TryUpdate_cases [of c r ns as d h])
    case closed
    then show ?thesis by simp
  next
    case stale
    then show ?thesis by simp
  next
    case (frozen h2 ch d1)
    then show ?thesis by simp
  next
    case (ok h2 ch d1)
    from st have "cells (fst (Clone h (attrs c ns))) (top h) k = Some m"
      by (simp add: Clone_eq)
    from update_loop_frozen_fails [OF this assms(3), of x as r "Rev r + 1" False d] x
    have "fst (update_loop r (Rev r + 1) (top h) as (fst (Clone h (attrs c ns))) False d)
        = Some (FrozenAttributesError r)" by blast
    with ok(3) show ?thesis by simp
  qed
  from p1 p2 show ?thesis by blast
qed

theorem frozen_immutable_witness:
  "snd (AttrsIn
         (fst (calls [CallTryUpdate \<lparr>ID = session0, Rev = 1\<rparr> ''ns'' [Set_attr ''a'' ''1''] None,
                      CallNextMessageID,
                      CallTryUpdate \<lparr>ID = session0, Rev = 2\<rparr> ''ns'' [Set_attr ''k'' ''v2''] None,
                      CallClose] (frozen_heap, frozen_catalog)))
         (snd (calls [CallTryUpdate \<lparr>ID = session0, Rev = 1\<rparr> ''ns'' [Set_attr ''a'' ''1''] None,
                      CallNextMessageID,
                      CallTryUpdate \<lparr>ID = session0, Rev = 2\<rparr> ''ns'' [Set_attr ''k'' ''v2''] None,
                      CallClose] (frozen_heap, frozen_catalog)))
         ''ns'') ''k''
     = Some \<lparr>Attr = Freeze ''k'' ''v1'', CreatedAt = 1, UpdatedAt = 1\<rparr>
   \<and> fst (TryUpdate \<lparr>ID = session0, Rev = 1\<rparr> ''ns'' [Set_attr ''a'' ''1'', Set_attr ''k'' ''v2''] None
          (frozen_heap, frozen_catalog))
     = Inl (FrozenAttributesError \<lparr>ID = session0, Rev = 1\<rparr>)"
proof -
  let ?m = "\<lparr>Attr = Freeze ''k'' ''v1'', CreatedAt = 1, UpdatedAt = 1\<rparr>"
  let ?cs = "[CallTryUpdate \<lparr>ID = session0, Rev = 1\<rparr> ''ns'' [Set_attr ''a'' ''1''] None,
              CallNextMessageID,
              CallTryUpdate \<lparr>ID = session0, Rev = 2\<rparr> ''ns'' [Set_attr ''k'' ''v2''] None,
              CallClose]"
  have al: "allocated frozen_heap frozen_catalog"
    by (simp add: allocated_def frozen_heap_def frozen_catalog_def)
  have st: "snd (AttrsIn frozen_heap frozen_catalog ''ns'') ''k'' = Some ?m"
    by (simp add: AttrsIn_def entries_def frozen_heap_def frozen_catalog_def)
  have fr: "IsFrozen (Attr ?m)" by (simp add: Freeze_def)
  have x: "Set_attr ''k'' ''v2'' \<in> set [Set_attr ''a'' ''1'', Set_attr ''k'' ''v2''] \<and>
      Key (Set_attr ''k'' ''v2'') = ''k'' \<and>
      (Value (Set_attr ''k'' ''v2'') \<noteq> Value (Attr ?m) \<or> \<not> IsFrozen (Set_attr ''k'' ''v2''))"
    by (simp add: Set_attr_def Freeze_def)
  have op: "\<not> isDone frozen_catalog \<and> \<lparr>ID = session0, Rev = 1\<rparr> = ref frozen_catalog"
    by (simp add: frozen_catalog_def)
  from frozen_immutable [OF al st fr, of ?cs "fst (calls ?cs (frozen_heap, frozen_catalog))"
      "snd (calls ?cs (frozen_heap, frozen_catalog))" "Set_attr ''k'' ''v2''"
      "[Set_attr ''a'' ''1'', Set_attr ''k'' ''v2'']" "\<lparr>ID = session0, Rev = 1\<rparr>" None] x op
  show ?thesis by simp
qed

section \<open>The textual form of attributes\<close>

text \<open>
  Claim C8, as amended. \<open>Write\<close> appends \<open>key=value\<close> for a non-frozen attribute
  with a value, \<open>key@value\<close> for a frozen one with a value, \<open>!key\<close> for a frozen one
  with the empty value and \<open>-key\<close> for a non-frozen one with the empty value. For an
  attribute with a value and \<open>CreatedAt = UpdatedAt\<close>, \<open>WriteDiff\<close> appends \<open>+\<close> and the
  textual form; for an attribute with the empty value, or with different revisions, it
  appends the textual form alone.
\<close>

theorem Write_forms:
  "(Value (Attr a) \<noteq> [] \<and> \<not> IsFrozen (Attr a) \<longrightarrow>
      Write b a = b @ Key (Attr a) @ ''='' @ Value (Attr a))
   \<and> (Value (Attr a) \<noteq> [] \<and> IsFrozen (Attr a) \<longrightarrow>
      Write b a = b @ Key (Attr a) @ ''@'' @ Value (Attr a))
   \<and> (Value (Attr a) = [] \<and> IsFrozen (Attr a) \<longrightarrow> Write b a = b @ ''!'' @ Key (Attr a))
   \<and> (Value (Attr a) = [] \<and> \<not> IsFrozen (Attr a) \<longrightarrow> Write b a = b @ ''-'' @ Key (Attr a))
   \<and> (Value (Attr a) \<noteq> [] \<and> CreatedAt a = UpdatedAt a \<longrightarrow>
      WriteDiff b a = b @ ''+'' @ Write [] a)
   \<and> (Value (Attr a) = [] \<or> CreatedAt a \<noteq> UpdatedAt a \<longrightarrow> WriteDiff b a = b @ Write [] a)"
  by (simp add: Write_def WriteDiff_def Let_def)

theorem Write_forms_witness:
  "Write [] \<lparr>Attr = Set_attr ''foo'' ''bar'', CreatedAt = 1, UpdatedAt = 2\<rparr> = ''foo=bar''
   \<and> Write [] \<lparr>Attr = Freeze ''foo'' ''bar'', CreatedAt = 1, UpdatedAt = 2\<rparr> = ''foo@bar''
   \<and> Write [] \<lparr>Attr = Freeze ''foo'' [], CreatedAt = 1, UpdatedAt = 2\<rparr> = ''!foo''
   \<and> Write [] \<lparr>Attr = Set_attr ''foo'' [], CreatedAt = 1, UpdatedAt = 2\<rparr> = ''-foo''
   \<and> WriteDiff [] \<lparr>Attr = Set_attr ''foo'' ''bar'', CreatedAt = 2, UpdatedAt = 2\<rparr> = ''+foo=bar''
   \<and> WriteDiff [] \<lparr>Attr = Freeze ''foo'' ''bar'', CreatedAt = 2, UpdatedAt = 2\<rparr> = ''+foo@bar''
   \<and> WriteDiff [] \<lparr>Attr = Set_attr ''foo'' ''bar'', CreatedAt = 1, UpdatedAt = 2\<rparr> = ''foo=bar''
   \<and> WriteDiff ''x=y, '' \<lparr>Attr = Set_attr ''foo'' [], CreatedAt = 2, UpdatedAt = 2\<rparr> = ''x=y, -foo''"
  using
    Write_forms [of "\<lparr>Attr = Set_attr ''foo'' ''bar'', CreatedAt = 1, UpdatedAt = 2\<rparr>" "[]"]
    Write_forms [of "\<lparr>Attr = Freeze ''foo'' ''bar'', CreatedAt = 1, UpdatedAt = 2\<rparr>" "[]"]
    Write_forms [of "\<lparr>Attr = Freeze ''foo'' [], CreatedAt = 1, UpdatedAt = 2\<rparr>" "[]"]
    Write_forms [of "\<lparr>Attr = Set_attr ''foo'' [], CreatedAt = 1, UpdatedAt = 2\<rparr>" "[]"]
    Write_forms [of "\<lparr>Attr = Set_attr ''foo'' ''bar'', CreatedAt = 2, UpdatedAt = 2\<rparr>" "[]"]
    Write_forms [of "\<lparr>Attr = Freeze ''foo'' ''bar'', CreatedAt = 2, UpdatedAt = 2\<rparr>" "[]"]
    Write_forms [of "\<lparr>Attr = Set_attr ''foo'' [], CreatedAt = 2, UpdatedAt = 2\<rparr>" "''x=y, ''"]
    Write_forms [of "\<lparr>Attr = Set_attr ''foo'' [], CreatedAt = 2, UpdatedAt = 2\<rparr>" "[]"]
  by (simp add: Set_attr_def Freeze_def)

text \<open>
  For an attribute with the empty value and \<open>CreatedAt = UpdatedAt\<close>, \<open>WriteDiff\<close>
  writes no \<open>+\<close>.
\<close>

theorem WriteDiff_unset_no_plus:
  "WriteDiff [] \<lparr>Attr = Freeze ''foo'' [], CreatedAt = 2, UpdatedAt = 2\<rparr> = ''!foo''
   \<and> ''+'' @ Write [] \<lparr>Attr = Freeze ''foo'' [], CreatedAt = 2, UpdatedAt = 2\<rparr> = ''+!foo''
   \<and> WriteDiff [] \<lparr>Attr = Freeze ''foo'' [], CreatedAt = 2, UpdatedAt = 2\<rparr>
        \<noteq> ''+'' @ Write [] \<lparr>Attr = Freeze ''foo'' [], CreatedAt = 2, UpdatedAt = 2\<rparr>"
  by (simp add: WriteDiff_def Write_def Freeze_def)

section \<open>The remote catalog: Fetch\<close>

lemma fetchLocal_loop_sound:
  "fetchLocal_loop i rv nc keys s u = (s', u', err) \<Longrightarrow>
   \<exists>ms. s' = s @ map Attr ms \<and>
     (\<forall>m\<in>set ms. CreatedAt m \<le> rv \<and> UpdatedAt m \<le> rv \<and>
        (\<exists>k\<in>set keys. \<exists>e. nc k = Some e \<and> Meta e = m))"
proof (induction keys arbitrary: s u)
  case Nil
  then have "s' = s @ map Attr []" by simp
  then show ?case by (metis empty_iff list.set(1))
next
  case (Cons key rest)
  show ?case
  proof (cases "nc key")
    case None
    with Cons.prems have "fetchLocal_loop i rv nc rest s (u @ [key]) = (s', u', err)" by simp
    from Cons.IH [OF this] show ?thesis by auto
  next
    case (Some entry)
    consider (created) "CreatedAt (Meta entry) > rv"
      | (stale) "\<not> CreatedAt (Meta entry) > rv" "UpdatedAt (Meta entry) > rv"
      | (solved) "\<not> CreatedAt (Meta entry) > rv" "\<not> UpdatedAt (Meta entry) > rv"
          "IsFrozen (Attr (Meta entry)) \<or> rv \<le> FetchedAt entry"
      | (unsolved) "\<not> CreatedAt (Meta entry) > rv" "\<not> UpdatedAt (Meta entry) > rv"
          "\<not> (IsFrozen (Attr (Meta entry)) \<or> rv \<le> FetchedAt entry)"
      by blast
    then show ?thesis
    proof cases
      case created
      with Some Cons.prems have "fetchLocal_loop i rv nc rest s u = (s', u', err)" by simp
      from Cons.IH [OF this] show ?thesis by auto
    next
      case stale
      with Some Cons.prems have "s' = s @ map Attr []" by simp
      then show ?thesis by (metis empty_iff list.set(1))
    next
      case solved
      with Some Cons.prems have
        "fetchLocal_loop i rv nc rest (s @ [Attr (Meta entry)]) u = (s', u', err)" by simp
      from Cons.IH [OF this] obtain ms where
        ms: "s' = (s @ [Attr (Meta entry)]) @ map Attr ms"
        "\<forall>m\<in>set ms. CreatedAt m \<le> rv \<and> UpdatedAt m \<le> rv \<and>
            (\<exists>k\<in>set rest. \<exists>e. nc k = Some e \<and> Meta e = m)"
        by blast
      have "s' = s @ map Attr (Meta entry # ms)" using ms(1) by simp
      moreover have "\<forall>m\<in>set (Meta entry # ms). CreatedAt m \<le> rv \<and> UpdatedAt m \<le> rv \<and>
            (\<exists>k\<in>set (key # rest). \<exists>e. nc k = Some e \<and> Meta e = m)"
        using ms(2) solved Some by (auto simp: not_less)
      ultimately show ?thesis by blast
    next
      case unsolved
      with Some Cons.prems have "fetchLocal_loop i rv nc rest s (u @ [key]) = (s', u', err)"
        by simp
      from Cons.IH [OF this] show ?thesis by auto
    qed
  qed
qed

lemma fetchLocal_loop_stale:
  "k \<in> set keys \<Longrightarrow> nc k = Some e \<Longrightarrow> \<not> CreatedAt (Meta e) > rv \<Longrightarrow> UpdatedAt (Meta e) > rv \<Longrightarrow>
   snd (snd (fetchLocal_loop i rv nc keys s u)) = Some (StaleFetchError \<lparr>ID = i, Rev = rv\<rparr>)"
proof (induction keys arbitrary: s u)
  case Nil
  then show ?case by simp
next
  case (Cons key rest)
  show ?case
  proof (cases "key = k")
    case True
    with Cons.prems show ?thesis by simp
  next
    case False
    with Cons.prems have "k \<in> set rest" by simp
    note ih = Cons.IH [OF this Cons.prems(2-4)]
    show ?thesis by (simp add: ih split: option.splits)
  qed
qed

lemma fetchLocal_loop_skip:
  "fetchLocal_loop i rv nc keys s u =
   fetchLocal_loop i rv nc (filter (\<lambda>k. \<not> created_after nc rv k) keys) s u"
  by (induction keys arbitrary: s u) (auto simp: created_after_def split: option.splits)

lemma fetch_merge_sound:
  "fetch_merge rv fr fas h nc st s = (h1, nc1, st1, s1) \<Longrightarrow>
   \<exists>ms. s1 = s @ map Attr ms \<and>
     (\<forall>m\<in>set ms. CreatedAt m \<le> rv \<and> UpdatedAt m \<le> rv \<and> m \<in> set fas)"
proof (induction fas arbitrary: h nc st s)
  case Nil
  then have "s1 = s @ map Attr []" by simp
  then show ?case by (metis empty_iff list.set(1))
next
  case (Cons attr rest)
  obtain h' nc' where w: "cache_fetched fr attr h nc = (h', nc')"
    by (metis prod.collapse)
  consider (skip) "st \<or> CreatedAt attr > rv \<or> UpdatedAt attr > rv"
    | (take) "\<not> st" "\<not> CreatedAt attr > rv" "\<not> UpdatedAt attr > rv"
    by blast
  then show ?case
  proof cases
    case skip
    with Cons.prems w obtain st' where
      "fetch_merge rv fr rest h' nc' st' s = (h1, nc1, st1, s1)"
      by (auto split: if_splits)
    from Cons.IH [OF this] show ?thesis by auto
  next
    case take
    with Cons.prems w have
      "fetch_merge rv fr rest h' nc' st (s @ [Attr attr]) = (h1, nc1, st1, s1)"
      by simp
    from Cons.IH [OF this] obtain ms where
      ms: "s1 = (s @ [Attr attr]) @ map Attr ms"
      "\<forall>m\<in>set ms. CreatedAt m \<le> rv \<and> UpdatedAt m \<le> rv \<and> m \<in> set rest"
      by blast
    have "s1 = s @ map Attr (attr # ms)" using ms(1) by simp
    moreover have "\<forall>m\<in>set (attr # ms). CreatedAt m \<le> rv \<and> UpdatedAt m \<le> rv \<and> m \<in> set (attr # rest)"
      using ms(2) take by (auto simp: not_less)
    ultimately show ?thesis by blast
  qed
qed

lemma fetchLocal_loop_of:
  "fetchLocal h c rv ns keys = (s, u, err) \<Longrightarrow>
   \<exists>err0. fetchLocal_loop (sid c) rv (entries h (cache c ns)) keys [] [] = (s, u, err0)
      \<and> (err0 \<noteq> None \<longrightarrow> err = err0)"
  by (auto simp: fetchLocal_def split: prod.splits option.splits if_splits)

lemma Fetch_sound:
  assumes F: "Fetch cl rv ns keys (h, c) = (Inr as, h', c', rpcs)"
  shows "\<exists>ms. as = map Attr ms \<and>
     (\<forall>m\<in>set ms. CreatedAt m \<le> rv \<and> UpdatedAt m \<le> rv \<and>
        ((\<exists>k\<in>set keys. \<exists>e. entries h (cache c ns) k = Some e \<and> Meta e = m) \<or>
         (\<exists>i n u. FetchCall i n u \<in> set rpcs \<and> m \<in> set (fst (snd (client_Fetch cl i n u))))))"
proof -
  obtain s u err where fl: "fetchLocal h c rv ns keys = (s, u, err)"
    by (metis prod_cases3)
  from fetchLocal_loop_of [OF fl] obtain err0 where
    "fetchLocal_loop (sid c) rv (entries h (cache c ns)) keys [] [] = (s, u, err0)" by blast
  from fetchLocal_loop_sound [OF this] obtain ms0 where
    s: "s = map Attr ms0"
    and ms0: "\<forall>m\<in>set ms0. CreatedAt m \<le> rv \<and> UpdatedAt m \<le> rv \<and>
        (\<exists>k\<in>set keys. \<exists>e. entries h (cache c ns) k = Some e \<and> Meta e = m)"
    by auto
  from F fl have err: "err = None" by (cases err) (simp_all add: Fetch_def)
  show ?thesis
  proof (cases "length u = 0")
    case True
    with F fl err have "as = s" by (simp add: Fetch_def)
    with s ms0 show ?thesis by blast
  next
    case more: False
    obtain fr fas err1 where rpc: "client_Fetch cl (sid c) ns u = (fr, fas, err1)"
      by (metis prod_cases3)
    from F fl err more rpc have err1: "err1 = None"
      by (cases err1) (simp_all add: Fetch_def)
    show ?thesis
    proof (cases "length fas = 0")
      case True
      with F fl err more rpc err1 have "as = s" by (simp add: Fetch_def)
      with s ms0 show ?thesis by blast
    next
      case False
      obtain h1 nc1 st s1 where
        fm: "fetch_merge rv fr fas h (cache (updateState fr None c) ns) False s = (h1, nc1, st, s1)"
        by (metis prod_cases4)
      from F fl err more rpc err1 False fm have as: "as = s1" and rpcs: "rpcs = [FetchCall (sid c) ns u]"
        by (simp_all add: Fetch_def Let_def split: if_splits)
      from fetch_merge_sound [OF fm] obtain ms1 where
        s1: "s1 = s @ map Attr ms1"
        and ms1: "\<forall>m\<in>set ms1. CreatedAt m \<le> rv \<and> UpdatedAt m \<le> rv \<and> m \<in> set fas"
        by blast
      from as s1 s have "as = map Attr (ms0 @ ms1)" by simp
      moreover have "\<forall>m\<in>set (ms0 @ ms1). CreatedAt m \<le> rv \<and> UpdatedAt m \<le> rv \<and>
        ((\<exists>k\<in>set keys. \<exists>e. entries h (cache c ns) k = Some e \<and> Meta e = m) \<or>
         (\<exists>i n u. FetchCall i n u \<in> set rpcs \<and> m \<in> set (fst (snd (client_Fetch cl i n u)))))"
      proof
        fix m assume "m \<in> set (ms0 @ ms1)"
        then consider "m \<in> set ms0" | "m \<in> set ms1" by auto
        then show "CreatedAt m \<le> rv \<and> UpdatedAt m \<le> rv \<and>
          ((\<exists>k\<in>set keys. \<exists>e. entries h (cache c ns) k = Some e \<and> Meta e = m) \<or>
           (\<exists>i n u. FetchCall i n u \<in> set rpcs \<and> m \<in> set (fst (snd (client_Fetch cl i n u)))))"
        proof cases
          case 1
          with ms0 show ?thesis by blast
        next
          case 2
          with ms1 have "CreatedAt m \<le> rv \<and> UpdatedAt m \<le> rv" and "m \<in> set fas" by simp_all
          moreover have "FetchCall (sid c) ns u \<in> set rpcs" using rpcs by simp
          moreover have "fas = fst (snd (client_Fetch cl (sid c) ns u))" using rpc by simp
          ultimately show ?thesis by blast
        qed
      qed
      ultimately show ?thesis by blast
    qed
  qed
qed

lemma Fetch_stale:
  assumes "k \<in> set keys" and "entries h (cache c ns) k = Some e"
    and "CreatedAt (Meta e) \<le> rv" and "rv < UpdatedAt (Meta e)"
  shows "Fetch cl rv ns keys (h, c) = (Inl (StaleFetchError \<lparr>ID = sid c, Rev = rv\<rparr>), h, c, [])"
proof -
  from assms(3) have nc: "\<not> CreatedAt (Meta e) > rv" by (simp add: not_less)
  have "snd (snd (fetchLocal_loop (sid c) rv (entries h (cache c ns)) keys [] []))
      = Some (StaleFetchError \<lparr>ID = sid c, Rev = rv\<rparr>)"
    by (rule fetchLocal_loop_stale [where nc = "entries h (cache c ns)" and k = k and e = e,
        OF assms(1) assms(2) nc assms(4)])
  then obtain s u where
    "fetchLocal_loop (sid c) rv (entries h (cache c ns)) keys [] []
      = (s, u, Some (StaleFetchError \<lparr>ID = sid c, Rev = rv\<rparr>))"
    by (metis prod.collapse)
  then have "fetchLocal h c rv ns keys = (s, u, Some (StaleFetchError \<lparr>ID = sid c, Rev = rv\<rparr>))"
    by (simp add: fetchLocal_def)
  then show ?thesis by (simp add: Fetch_def)
qed

lemma Fetch_skip:
  "Fetch cl rv ns keys (h, c) =
   Fetch cl rv ns (filter (\<lambda>k. \<not> created_after (entries h (cache c ns)) rv k) keys) (h, c)"
proof -
  have "fetchLocal h c rv ns keys =
    fetchLocal h c rv ns (filter (\<lambda>k. \<not> created_after (entries h (cache c ns)) rv k) keys)"
    unfolding fetchLocal_def
    using fetchLocal_loop_skip [of "sid c" rv "entries h (cache c ns)" keys "[]" "[]"] by simp
  then show ?thesis by (simp add: Fetch_def)
qed

text \<open>
  Claim C4. Every attribute that \<open>Fetch\<close> returns is the attribute of a cache entry
  for a requested key, or of an attribute the remote call returned, whose \<open>CreatedAt\<close>
  and \<open>UpdatedAt\<close> are at most \<open>rv\<close>. When the cache holds, for a requested key, an
  entry that existed at \<open>rv\<close> and was updated after \<open>rv\<close>, \<open>Fetch\<close> returns
  \<open>StaleFetch\<close>, makes no remote call and leaves the catalog as it was. The keys whose
  cache entry was created after \<open>rv\<close> are the other case the claim names (the loop tests
  it first): \<open>Fetch\<close> behaves as if they had not been requested, so they add nothing
  to the result, to the keys fetched remotely or to the error; when every requested key
  is of that kind the result is empty, with no remote call.
\<close>

theorem Fetch_never_newer:
  "(Fetch cl rv ns keys (h, c) = (Inr as, h', c', rpcs) \<longrightarrow>
      (\<exists>ms. as = map Attr ms \<and>
         (\<forall>m\<in>set ms. CreatedAt m \<le> rv \<and> UpdatedAt m \<le> rv \<and>
           ((\<exists>k\<in>set keys. \<exists>e. entries h (cache c ns) k = Some e \<and> Meta e = m) \<or>
            (\<exists>i n u. FetchCall i n u \<in> set rpcs \<and>
                      m \<in> set (fst (snd (client_Fetch cl i n u))))))))
   \<and> (k \<in> set keys \<and> entries h (cache c ns) k = Some e \<and> CreatedAt (Meta e) \<le> rv \<and>
       rv < UpdatedAt (Meta e) \<longrightarrow>
         Fetch cl rv ns keys (h, c) = (Inl (StaleFetchError \<lparr>ID = sid c, Rev = rv\<rparr>), h, c, []))
   \<and> Fetch cl rv ns keys (h, c) =
       Fetch cl rv ns (filter (\<lambda>k. \<not> created_after (entries h (cache c ns)) rv k) keys) (h, c)
   \<and> ((\<forall>k\<in>set keys. created_after (entries h (cache c ns)) rv k) \<longrightarrow>
         Fetch cl rv ns keys (h, c) = (Inr [], h, c, []))"
proof (intro conjI impI)
  assume "Fetch cl rv ns keys (h, c) = (Inr as, h', c', rpcs)"
  then show "\<exists>ms. as = map Attr ms \<and>
         (\<forall>m\<in>set ms. CreatedAt m \<le> rv \<and> UpdatedAt m \<le> rv \<and>
           ((\<exists>k\<in>set keys. \<exists>e. entries h (cache c ns) k = Some e \<and> Meta e = m) \<or>
            (\<exists>i n u. FetchCall i n u \<in> set rpcs \<and>
                      m \<in> set (fst (snd (client_Fetch cl i n u))))))"
    by (rule Fetch_sound)
next
  assume "k \<in> set keys \<and> entries h (cache c ns) k = Some e \<and> CreatedAt (Meta e) \<le> rv \<and>
       rv < UpdatedAt (Meta e)"
  then show "Fetch cl rv ns keys (h, c) = (Inl (StaleFetchError \<lparr>ID = sid c, Rev = rv\<rparr>), h, c, [])"
    by (blast intro: Fetch_stale)
next
  show "Fetch cl rv ns keys (h, c) =
       Fetch cl rv ns (filter (\<lambda>k. \<not> created_after (entries h (cache c ns)) rv k) keys) (h, c)"
    by (rule Fetch_skip)
next
  assume "\<forall>k\<in>set keys. created_after (entries h (cache c ns)) rv k"
  then have "filter (\<lambda>k. \<not> created_after (entries h (cache c ns)) rv k) keys = []"
    by (simp add: filter_empty_conv)
  with Fetch_skip [of cl rv ns keys h c]
  have "Fetch cl rv ns keys (h, c) = Fetch cl rv ns [] (h, c)" by simp
  also have "\<dots> = (Inr [], h, c, [])" by (simp add: Fetch_def fetchLocal_def)
  finally show "Fetch cl rv ns keys (h, c) = (Inr [], h, c, [])" .
qed

theorem Fetch_never_newer_witness:
  "Fetch owner 5 ''ns'' [''f'', ''k''] (cache_heap, cache_catalog)
     = (Inl (StaleFetchError \<lparr>ID = session0, Rev = 5\<rparr>), cache_heap, cache_catalog, [])
   \<and> Fetch owner 5 ''ns'' [''j'', ''f''] (cache_heap, cache_catalog)
     = (Inr [Freeze ''f'' ''x''], cache_heap, cache_catalog, [])
   \<and> Fetch owner 5 ''ns'' [''j'', ''f''] (cache_heap, cache_catalog)
     = Fetch owner 5 ''ns'' [''f''] (cache_heap, cache_catalog)
   \<and> Fetch owner 5 ''ns'' [''j''] (cache_heap, cache_catalog)
     = (Inr [], cache_heap, cache_catalog, [])
   \<and> fst (Fetch owner 5 ''ns'' [''z''] (cache_heap, cache_catalog)) = Inr [Set_attr ''z'' ''w'']
   \<and> (\<exists>ms :: AttrMeta list.
        [Set_attr ''z'' ''w''] = map Attr ms \<and> list_all (\<lambda>m. UpdatedAt m \<le> 5) ms)"
proof -
  let ?k = "\<lparr>Meta = \<lparr>Attr = Set_attr ''k'' ''v'', CreatedAt = 2, UpdatedAt = 10\<rparr>, FetchedAt = 10\<rparr>"
  have stale: "''k'' \<in> set [''f'', ''k''] \<and> entries cache_heap (cache cache_catalog ''ns'') ''k'' = Some ?k
      \<and> CreatedAt (Meta ?k) \<le> 5 \<and> 5 < UpdatedAt (Meta ?k)"
    by (simp add: cache_heap_def cache_catalog_def entries_def)
  have flt: "filter (\<lambda>k. \<not> created_after (entries cache_heap (cache cache_catalog ''ns'')) 5 k)
      [''j'', ''f''] = [''f'']"
    by (simp add: cache_heap_def cache_catalog_def entries_def created_after_def)
  have f: "Fetch owner 5 ''ns'' [''f''] (cache_heap, cache_catalog)
     = (Inr [Freeze ''f'' ''x''], cache_heap, cache_catalog, [])"
    by (simp add: Fetch_def fetchLocal_def cache_heap_def cache_catalog_def entries_def
        Freeze_def Set_attr_def)
  obtain h' c' rpcs where
    z: "Fetch owner 5 ''ns'' [''z''] (cache_heap, cache_catalog)
          = (Inr [Set_attr ''z'' ''w''], h', c', rpcs)"
    by (simp add: Fetch_def fetchLocal_def cache_heap_def cache_catalog_def entries_def owner_def
        updateState_def cache_fetched_def zeroCachedAttr_def store_def Let_def
        Freeze_def Set_attr_def)
  note t1 = Fetch_never_newer [of owner 5 "''ns''" "[''f'', ''k'']" cache_heap cache_catalog
      "[]" h' c' rpcs "''k''" ?k]
  note t2 = Fetch_never_newer [of owner 5 "''ns''" "[''j'', ''f'']" cache_heap cache_catalog
      "[]" h' c' rpcs "''k''" ?k]
  note t3 = Fetch_never_newer [of owner 5 "''ns''" "[''z'']" cache_heap cache_catalog
      "[Set_attr ''z'' ''w'']" h' c' rpcs "''k''" ?k, THEN conjunct1, THEN mp, OF z]
  from t1 stale have 1: "Fetch owner 5 ''ns'' [''f'', ''k''] (cache_heap, cache_catalog)
     = (Inl (StaleFetchError \<lparr>ID = session0, Rev = 5\<rparr>), cache_heap, cache_catalog, [])"
    by (simp add: cache_catalog_def)
  from t2 flt have 2: "Fetch owner 5 ''ns'' [''j'', ''f''] (cache_heap, cache_catalog)
     = Fetch owner 5 ''ns'' [''f''] (cache_heap, cache_catalog)"
    by simp
  have "\<forall>k\<in>set [''j'']. created_after (entries cache_heap (cache cache_catalog ''ns'')) 5 k"
    by (simp add: cache_heap_def cache_catalog_def entries_def created_after_def)
  with Fetch_never_newer [of owner 5 "''ns''" "[''j'']" cache_heap cache_catalog
      "[]" h' c' rpcs "''k''" ?k]
  have 4: "Fetch owner 5 ''ns'' [''j''] (cache_heap, cache_catalog)
     = (Inr [], cache_heap, cache_catalog, [])"
    by blast
  from t3 have 3: "\<exists>ms :: AttrMeta list.
      [Set_attr ''z'' ''w''] = map Attr ms \<and> list_all (\<lambda>m. UpdatedAt m \<le> 5) ms"
    by (elim exE conjE, intro exI conjI) (assumption, simp add: list_all_iff)
  from 1 2 3 4 f z show ?thesis by simp
qed

section \<open>The remote catalog: TryUpdate\<close>

lemma update_filter_frozen:
  "x \<in> set as \<Longrightarrow> nc (Key x) = Some e \<Longrightarrow> IsFrozen (Attr (Meta e)) \<Longrightarrow> x \<noteq> Attr (Meta e) \<Longrightarrow>
   update_filter r rv nc as acc = Inl (FrozenAttributesError r)"
proof (induction as arbitrary: acc)
  case Nil
  then show ?case by simp
next
  case (Cons y ys)
  show ?case
  proof (cases "y = x")
    case True
    with Cons.prems show ?thesis by simp
  next
    case False
    with Cons.prems have "x \<in> set ys" by simp
    note ih = Cons.IH [OF this Cons.prems(2-4)]
    show ?thesis by (simp add: ih split: option.splits)
  qed
qed

lemma update_filter_skips:
  "update_filter r rv nc as acc = Inr out \<Longrightarrow> nc (Key x) = Some e \<Longrightarrow>
   IsFrozen (Attr (Meta e)) \<Longrightarrow> x = Attr (Meta e) \<Longrightarrow> x \<notin> set acc \<Longrightarrow> x \<notin> set out"
proof (induction as arbitrary: acc)
  case Nil
  then show ?case by simp
next
  case (Cons y ys)
  show ?case
  proof (cases "y = x")
    case True
    with Cons.prems have "update_filter r rv nc ys acc = Inr out" by simp
    from Cons.IH [OF this Cons.prems(2-5)] show ?thesis .
  next
    case False
    with Cons.prems obtain acc' where "update_filter r rv nc ys acc' = Inr out" and "x \<notin> set acc'"
      by (auto split: option.splits if_splits)
    from Cons.IH [OF this(1) Cons.prems(2-4) this(2)] show ?thesis .
  qed
qed

lemma update_filter_nil_cache: "update_filter r rv Map.empty as acc = Inr (acc @ as)"
  by (induction as arbitrary: acc) simp_all

lemma remote_TryUpdate_sent:
  assumes "remote_TryUpdate cl rv ns as (h, c) = (res, h', c', rpcs)"
    and "UpdateCall r n sent \<in> set rpcs"
  shows "update_filter \<lparr>ID = sid c, Rev = rv\<rparr> rv (entries h (cache c ns)) as [] = Inr sent"
proof (cases "update_filter \<lparr>ID = sid c, Rev = rv\<rparr> rv (entries h (cache c ns)) as []")
  case (Inl e)
  with assms show ?thesis
    by (auto simp: remote_TryUpdate_def Let_def split: if_splits)
next
  case (Inr out)
  obtain ur ras err where "client_Update cl \<lparr>ID = sid c, Rev = rv\<rparr> ns out = (ur, ras, err)"
    by (metis prod_cases3)
  with Inr assms show ?thesis
    by (auto simp: remote_TryUpdate_def Let_def split: if_splits option.splits prod.splits)
qed

text \<open>
  Claim C6. The remote \<open>TryUpdate\<close> makes its checks in this order: on a closed
  catalog it fails with \<open>NotFound\<close>; otherwise, when \<open>highestRev > rv\<close>, with
  \<open>StaleUpdate\<close>; otherwise, when the cache holds a frozen entry for the key of some
  attribute whose value differs, with \<open>FrozenAttributes\<close>. In each of the three
  situations the call fails without a remote call and without a change of state. An
  attribute identical to its frozen cache entry is not among the attributes sent.
\<close>

theorem remote_TryUpdate_errors:
  "(isClosed c \<longrightarrow>
      remote_TryUpdate cl rv ns as (h, c) = (Inl (NotFoundError (sid c)), h, c, []))
   \<and> (\<not> isClosed c \<and> highestRev c > rv \<longrightarrow>
      remote_TryUpdate cl rv ns as (h, c)
        = (Inl (StaleUpdateError \<lparr>ID = sid c, Rev = rv\<rparr>), h, c, []))
   \<and> (\<not> isClosed c \<and> \<not> highestRev c > rv \<and> x \<in> set as \<and>
       entries h (cache c ns) (Key x) = Some e \<and> IsFrozen (Attr (Meta e)) \<and>
       Value x \<noteq> Value (Attr (Meta e)) \<longrightarrow>
      remote_TryUpdate cl rv ns as (h, c)
        = (Inl (FrozenAttributesError \<lparr>ID = sid c, Rev = rv\<rparr>), h, c, []))
   \<and> (remote_TryUpdate cl rv ns as (h, c) = (res, h', c', rpcs) \<and>
       UpdateCall r n sent \<in> set rpcs \<and>
       entries h (cache c ns) (Key y) = Some e' \<and> IsFrozen (Attr (Meta e')) \<and>
       y = Attr (Meta e') \<longrightarrow> y \<notin> set sent)
   \<and> (isClosed c \<or> highestRev c > rv \<or>
       (x \<in> set as \<and> entries h (cache c ns) (Key x) = Some e \<and> IsFrozen (Attr (Meta e)) \<and>
        Value x \<noteq> Value (Attr (Meta e))) \<longrightarrow>
      (\<exists>err. remote_TryUpdate cl rv ns as (h, c) = (Inl err, h, c, [])))"
proof -
  have p1: "isClosed c \<longrightarrow>
      remote_TryUpdate cl rv ns as (h, c) = (Inl (NotFoundError (sid c)), h, c, [])"
    by (simp add: remote_TryUpdate_def)
  have p2: "\<not> isClosed c \<and> highestRev c > rv \<longrightarrow>
      remote_TryUpdate cl rv ns as (h, c)
        = (Inl (StaleUpdateError \<lparr>ID = sid c, Rev = rv\<rparr>), h, c, [])"
    by (simp add: remote_TryUpdate_def)
  have p3: "\<not> isClosed c \<and> \<not> highestRev c > rv \<and> x \<in> set as \<and>
       entries h (cache c ns) (Key x) = Some e \<and> IsFrozen (Attr (Meta e)) \<and>
       Value x \<noteq> Value (Attr (Meta e)) \<longrightarrow>
      remote_TryUpdate cl rv ns as (h, c)
        = (Inl (FrozenAttributesError \<lparr>ID = sid c, Rev = rv\<rparr>), h, c, [])"
  proof
    assume a: "\<not> isClosed c \<and> \<not> highestRev c > rv \<and> x \<in> set as \<and>
       entries h (cache c ns) (Key x) = Some e \<and> IsFrozen (Attr (Meta e)) \<and>
       Value x \<noteq> Value (Attr (Meta e))"
    then have "x \<noteq> Attr (Meta e)" by auto
    with a have "update_filter \<lparr>ID = sid c, Rev = rv\<rparr> rv (entries h (cache c ns)) as []
        = Inl (FrozenAttributesError \<lparr>ID = sid c, Rev = rv\<rparr>)"
      by (simp add: update_filter_frozen [where x = x and e = e])
    with a show "remote_TryUpdate cl rv ns as (h, c)
        = (Inl (FrozenAttributesError \<lparr>ID = sid c, Rev = rv\<rparr>), h, c, [])"
      by (simp add: remote_TryUpdate_def)
  qed
  have p4: "remote_TryUpdate cl rv ns as (h, c) = (res, h', c', rpcs) \<and>
       UpdateCall r n sent \<in> set rpcs \<and>
       entries h (cache c ns) (Key y) = Some e' \<and> IsFrozen (Attr (Meta e')) \<and>
       y = Attr (Meta e') \<longrightarrow> y \<notin> set sent"
  proof
    assume a: "remote_TryUpdate cl rv ns as (h, c) = (res, h', c', rpcs) \<and>
       UpdateCall r n sent \<in> set rpcs \<and>
       entries h (cache c ns) (Key y) = Some e' \<and> IsFrozen (Attr (Meta e')) \<and>
       y = Attr (Meta e')"
    then have u: "remote_TryUpdate cl rv ns as (h, c) = (res, h', c', rpcs)"
      and s: "UpdateCall r n sent \<in> set rpcs"
      and en: "entries h (cache c ns) (Key y) = Some e'"
      and fr: "IsFrozen (Attr (Meta e'))" and eq: "y = Attr (Meta e')"
      by blast+
    from remote_TryUpdate_sent [OF u s]
    have f: "update_filter \<lparr>ID = sid c, Rev = rv\<rparr> rv (entries h (cache c ns)) as [] = Inr sent" .
    show "y \<notin> set sent" by (rule update_filter_skips [OF f en fr eq]) simp
  qed
  have p5: "isClosed c \<or> highestRev c > rv \<or>
       (x \<in> set as \<and> entries h (cache c ns) (Key x) = Some e \<and> IsFrozen (Attr (Meta e)) \<and>
        Value x \<noteq> Value (Attr (Meta e))) \<longrightarrow>
      (\<exists>err. remote_TryUpdate cl rv ns as (h, c) = (Inl err, h, c, []))"
    using p1 p2 p3 by blast
  from p1 p2 p3 p4 p5 show ?thesis by (intro conjI)
qed

theorem remote_TryUpdate_errors_witness:
  "remote_TryUpdate owner 5 ''ns'' [Set_attr ''a'' ''1''] (cache_heap, cache_catalog\<lparr>isClosed := True\<rparr>)
     = (Inl (NotFoundError session0), cache_heap, cache_catalog\<lparr>isClosed := True\<rparr>, [])
   \<and> remote_TryUpdate owner 3 ''ns'' [Set_attr ''a'' ''1''] (cache_heap, cache_catalog)
     = (Inl (StaleUpdateError \<lparr>ID = session0, Rev = 3\<rparr>), cache_heap, cache_catalog, [])
   \<and> remote_TryUpdate owner 5 ''ns'' [Set_attr ''a'' ''1'', Set_attr ''f'' ''y''] (cache_heap, cache_catalog)
     = (Inl (FrozenAttributesError \<lparr>ID = session0, Rev = 5\<rparr>), cache_heap, cache_catalog, [])
   \<and> snd (snd (snd (remote_TryUpdate owner 5 ''ns'' [Freeze ''f'' ''x'', Set_attr ''a'' ''1'']
          (cache_heap, cache_catalog))))
     = [UpdateCall \<lparr>ID = session0, Rev = 5\<rparr> ''ns'' [Set_attr ''a'' ''1'']]
   \<and> Freeze ''f'' ''x'' \<notin> set [Set_attr ''a'' ''1'']"
proof -
  let ?f = "\<lparr>Meta = \<lparr>Attr = Freeze ''f'' ''x'', CreatedAt = 1, UpdatedAt = 1\<rparr>, FetchedAt = 1\<rparr>"
  let ?r = "\<lparr>ID = session0, Rev = 5\<rparr>"
  have f: "entries cache_heap (cache cache_catalog ''ns'') ''f'' = Some ?f"
    by (simp add: cache_heap_def cache_catalog_def entries_def)
  obtain res h' c' where
    u: "remote_TryUpdate owner 5 ''ns'' [Freeze ''f'' ''x'', Set_attr ''a'' ''1''] (cache_heap, cache_catalog)
          = (res, h', c', [UpdateCall ?r ''ns'' [Set_attr ''a'' ''1'']])"
    by (simp add: remote_TryUpdate_def cache_heap_def cache_catalog_def entries_def owner_def
        updateState_def zeroCachedAttr_def store_def Let_def Freeze_def Set_attr_def)
  have h1: "isClosed (cache_catalog\<lparr>isClosed := True\<rparr>)" by simp
  have h2: "\<not> isClosed cache_catalog \<and> highestRev cache_catalog > 3"
    by (simp add: cache_catalog_def)
  have h3: "\<not> isClosed cache_catalog \<and> \<not> highestRev cache_catalog > 5 \<and>
      Set_attr ''f'' ''y'' \<in> set [Set_attr ''a'' ''1'', Set_attr ''f'' ''y''] \<and>
      entries cache_heap (cache cache_catalog ''ns'') (Key (Set_attr ''f'' ''y'')) = Some ?f \<and>
      IsFrozen (Attr (Meta ?f)) \<and> Value (Set_attr ''f'' ''y'') \<noteq> Value (Attr (Meta ?f))"
    using f by (simp add: cache_catalog_def Set_attr_def Freeze_def)
  have h4: "UpdateCall ?r ''ns'' [Set_attr ''a'' ''1''] \<in> set [UpdateCall ?r ''ns'' [Set_attr ''a'' ''1'']] \<and>
      entries cache_heap (cache cache_catalog ''ns'') (Key (Freeze ''f'' ''x'')) = Some ?f \<and>
      IsFrozen (Attr (Meta ?f)) \<and> Freeze ''f'' ''x'' = Attr (Meta ?f)"
    using f by (simp add: Freeze_def)
  from remote_TryUpdate_errors [of "cache_catalog\<lparr>isClosed := True\<rparr>" owner 5 "''ns''"
      "[Set_attr ''a'' ''1'']" cache_heap "Set_attr ''f'' ''y''" ?f res h' c' "[]" ?r "''ns''" "[]"
      "Freeze ''f'' ''x''" ?f] h1
  have 1: "remote_TryUpdate owner 5 ''ns'' [Set_attr ''a'' ''1'']
      (cache_heap, cache_catalog\<lparr>isClosed := True\<rparr>)
     = (Inl (NotFoundError session0), cache_heap, cache_catalog\<lparr>isClosed := True\<rparr>, [])"
    by (simp add: cache_catalog_def)
  from remote_TryUpdate_errors [of cache_catalog owner 3 "''ns''"
      "[Set_attr ''a'' ''1'']" cache_heap "Set_attr ''f'' ''y''" ?f res h' c' "[]" ?r "''ns''" "[]"
      "Freeze ''f'' ''x''" ?f] h2
  have 2: "remote_TryUpdate owner 3 ''ns'' [Set_attr ''a'' ''1''] (cache_heap, cache_catalog)
     = (Inl (StaleUpdateError \<lparr>ID = session0, Rev = 3\<rparr>), cache_heap, cache_catalog, [])"
    by (simp add: cache_catalog_def)
  from remote_TryUpdate_errors [of cache_catalog owner 5 "''ns''"
      "[Set_attr ''a'' ''1'', Set_attr ''f'' ''y'']" cache_heap "Set_attr ''f'' ''y''" ?f res h' c'
      "[]" ?r "''ns''" "[]" "Freeze ''f'' ''x''" ?f] h3
  have 3: "remote_TryUpdate owner 5 ''ns'' [Set_attr ''a'' ''1'', Set_attr ''f'' ''y'']
      (cache_heap, cache_catalog)
     = (Inl (FrozenAttributesError \<lparr>ID = session0, Rev = 5\<rparr>), cache_heap, cache_catalog, [])"
    by (simp add: cache_catalog_def)
  from remote_TryUpdate_errors [of cache_catalog owner 5 "''ns''"
      "[Freeze ''f'' ''x'', Set_attr ''a'' ''1'']" cache_heap "Set_attr ''f'' ''y''" ?f res h' c'
      "[UpdateCall ?r ''ns'' [Set_attr ''a'' ''1'']]" ?r "''ns''" "[Set_attr ''a'' ''1'']"
      "Freeze ''f'' ''x''" ?f] u h4
  have 4: "Freeze ''f'' ''x'' \<notin> set [Set_attr ''a'' ''1'']" by blast
  from 1 2 3 4 u show ?thesis by simp
qed

text \<open>
  The merge loop of \<open>TryUpdate\<close> on a namespace that has no cache yet: the variable
  \<open>cache\<close> is the nil map, and the first write panics.
\<close>

lemma update_merge_nil_map:
  "ras \<noteq> [] \<Longrightarrow> 0 < ur \<Longrightarrow> update_merge ur ras h None = (Some NilMapPanic, h)"
  by (cases ras) (simp_all add: entries_def zeroCachedAttr_def)

lemma remote_TryUpdate_nil_cache:
  assumes "\<not> isClosed c" and "\<not> highestRev c > rv" and "cache c ns = None"
    and "client_Update cl \<lparr>ID = sid c, Rev = rv\<rparr> ns as = (ur, ras, None)"
    and "ras \<noteq> []" and "0 < ur"
  shows "remote_TryUpdate cl rv ns as (h, c)
    = (Inl NilMapPanic, h, updateState ur None c, [UpdateCall \<lparr>ID = sid c, Rev = rv\<rparr> ns as])"
  using assms
  by (simp add: remote_TryUpdate_def entries_def update_filter_nil_cache update_merge_nil_map)

text \<open>
  Claim C10 does not hold of the code. On a fresh catalog, an update of one attribute
  that the owner accepts at revision 1 ends in the panic of an assignment to an entry of
  the nil map, after the remote call. \<open>Fetch\<close> in the same situation allocates the
  namespace cache and installs it.
\<close>

theorem remote_TryUpdate_nil_map_panic:
  "remote_TryUpdate owner 0 ''ns'' [Set_attr ''k'' ''v''] (heap0, newCatalog session0)
     = (Inl NilMapPanic, heap0, (newCatalog session0)\<lparr>highestRev := 1\<rparr>,
        [UpdateCall \<lparr>ID = session0, Rev = 0\<rparr> ''ns'' [Set_attr ''k'' ''v'']])
   \<and> fst (Fetch owner 5 ''ns'' [''k''] (heap0, newCatalog session0)) = Inr [Set_attr ''k'' ''w'']
   \<and> cache (fst (snd (snd (Fetch owner 5 ''ns'' [''k''] (heap0, newCatalog session0))))) ''ns''
     = Some 0"
proof -
  have "remote_TryUpdate owner 0 ''ns'' [Set_attr ''k'' ''v''] (heap0, newCatalog session0)
     = (Inl NilMapPanic, heap0, updateState 1 None (newCatalog session0),
        [UpdateCall \<lparr>ID = sid (newCatalog session0), Rev = 0\<rparr> ''ns'' [Set_attr ''k'' ''v'']])"
    by (rule remote_TryUpdate_nil_cache
        [where ras = "[\<lparr>Attr = Set_attr ''k'' ''v'', CreatedAt = 1, UpdatedAt = 1\<rparr>]"])
      (simp_all add: newCatalog_def owner_def)
  moreover have "updateState 1 None (newCatalog session0) = (newCatalog session0)\<lparr>highestRev := 1\<rparr>"
    by (simp add: updateState_def newCatalog_def)
  moreover have "Fetch owner 5 ''ns'' [''k''] (heap0, newCatalog session0)
     = (Inr [Set_attr ''k'' ''w''],
        store 0 ''k'' \<lparr>Meta = \<lparr>Attr = Set_attr ''k'' ''w'', CreatedAt = 3, UpdatedAt = 4\<rparr>,
                      FetchedAt = 5\<rparr> (fst (alloc Map.empty heap0)),
        (newCatalog session0)\<lparr>highestRev := 5, cache := [''ns'' \<mapsto> 0]\<rparr>,
        [FetchCall session0 ''ns'' [''k'']])"
    by (simp add: Fetch_def fetchLocal_def newCatalog_def heap0_def entries_def owner_def
        updateState_def cache_fetched_def zeroCachedAttr_def alloc_def Let_def Set_attr_def)
  ultimately show ?thesis by (simp add: newCatalog_def)
qed

section \<open>Deliveries without a handler\<close>

text \<open>
  A delivery whose message ID parses, whose namespace is resolved (the routing key on
  the balanced and the multicast exchange, the string namespace header on the unicast
  exchange) and for which no handler is registered is rejected with requeue, and that is
  the only answer to the broker. \<open>handle\<close> does not look at the exchange on this path.
\<close>

lemma dispatch_no_handler:
  assumes "ParseMessageID env (MessageId msg) = Inr msgID"
    and "((Exchange msg = balancedExchange env \<or> Exchange msg = multicastExchange env) \<and>
          namespace = RoutingKey msg)
         \<or> (Exchange msg \<noteq> balancedExchange env \<and> Exchange msg \<noteq> multicastExchange env \<and>
             Exchange msg = unicastExchange env \<and>
             Headers msg (namespaceHeader env) = Some (StringValue namespace))"
    and "handlers namespace = None \<or> handlers namespace = Some None"
  shows "dispatch env handlers msg = [Reject True]"
  using assms by (auto simp: dispatch_def handle_def)

lemma dispatch_no_handler_examples:
  "dispatch env0 Map.empty (request ''cmd.bal'' ''math'' Map.empty) = [Reject True]
   \<and> dispatch env0 [''other'' \<mapsto> Some (\<lambda>c. True)] (request ''cmd.mc'' ''math'' Map.empty)
       = [Reject True]
   \<and> dispatch env0 [''math'' \<mapsto> None] (request ''cmd.uc'' ''1-1'' [''n'' \<mapsto> StringValue ''math''])
       = [Reject True]"
proof -
  have p: "ParseMessageID env0 (MessageId (request x k hs))
      = Inr \<lparr>Session = \<lparr>ID = session0, Rev = 0\<rparr>, MsgSeq = 1\<rparr>" for x k hs
    by (simp add: env0_def request_def)
  have "dispatch env0 Map.empty (request ''cmd.bal'' ''math'' Map.empty) = [Reject True]"
    by (rule dispatch_no_handler [OF p, where namespace = "''math''"])
      (simp_all add: env0_def request_def)
  moreover
  have "dispatch env0 [''other'' \<mapsto> Some (\<lambda>c. True)] (request ''cmd.mc'' ''math'' Map.empty)
       = [Reject True]"
    by (rule dispatch_no_handler [OF p, where namespace = "''math''"])
      (simp_all add: env0_def request_def)
  moreover
  have "dispatch env0 [''math'' \<mapsto> None] (request ''cmd.uc'' ''1-1'' [''n'' \<mapsto> StringValue ''math''])
       = [Reject True]"
    by (rule dispatch_no_handler [OF p, where namespace = "''math''"])
      (simp_all add: env0_def request_def)
  ultimately show ?thesis by simp
qed

text \<open>
  Claim C3 does not hold of the code. A delivery on the balanced or the multicast
  exchange with no handler is requeued, as the claim says, but so is a delivery on the
  unicast exchange: here a unicast request for the namespace \<open>math\<close> reaches a server
  with no handler at all and is rejected with requeue. The path after a handler has
  returned requeues on the balanced exchange only.
\<close>

theorem dispatch_unicast_requeued:
  "Exchange (request ''cmd.uc'' ''1-1'' [''n'' \<mapsto> StringValue ''math'']) = unicastExchange env0
   \<and> Exchange (request ''cmd.uc'' ''1-1'' [''n'' \<mapsto> StringValue ''math'']) \<noteq> balancedExchange env0
   \<and> Exchange (request ''cmd.uc'' ''1-1'' [''n'' \<mapsto> StringValue ''math'']) \<noteq> multicastExchange env0
   \<and> dispatch env0 Map.empty (request ''cmd.uc'' ''1-1'' [''n'' \<mapsto> StringValue ''math''])
       = [Reject True]"
  by (simp add: dispatch_def handle_def env0_def request_def)

end
